theory Spec2Isabelle
  imports Main "HOL-Library.Sublist"
begin

section \<open>Text, characters and the Python string operations the scripts use\<close>

text \<open>
  The two rewriters, \<^verbatim>\<open>apps/mobile/update-styles.py\<close> (below: v1) and
  \<^verbatim>\<open>apps/mobile/update-styles-v2.py\<close> (below: v2), work on Python \<^verbatim>\<open>str\<close> values with
  the \<^verbatim>\<open>re\<close> module. A text is modelled as a \<^typ>\<open>string\<close>: a list of characters with
  code points below 256. The character classes are those of \<^verbatim>\<open>re\<close> on \<^verbatim>\<open>str\<close> patterns,
  restricted to these code points.
\<close>

datatype py_error = IndexError string | OSError string

definition is_digit :: "char \<Rightarrow> bool" where
  \<comment> \<open>\<^verbatim>\<open>\d\<close>\<close>
  "is_digit c = (let n = (of_char c :: nat) in 48 \<le> n \<and> n \<le> 57)"

definition is_space :: "char \<Rightarrow> bool" where
  \<comment> \<open>\<^verbatim>\<open>\s\<close>: tab to carriage return, the four separators 28 to 31, space, NEL, no-break space\<close>
  "is_space c = (let n = (of_char c :: nat) in
     (9 \<le> n \<and> n \<le> 13) \<or> (28 \<le> n \<and> n \<le> 32) \<or> n = 133 \<or> n = 160)"

definition is_word :: "char \<Rightarrow> bool" where
  \<comment> \<open>\<^verbatim>\<open>\w\<close>: alphanumeric or underscore\<close>
  "is_word c = (let n = (of_char c :: nat) in
     (48 \<le> n \<and> n \<le> 57) \<or> (65 \<le> n \<and> n \<le> 90) \<or> n = 95 \<or> (97 \<le> n \<and> n \<le> 122) \<or>
     n = 170 \<or> n = 178 \<or> n = 179 \<or> n = 181 \<or> n = 185 \<or> n = 186 \<or>
     (188 \<le> n \<and> n \<le> 190) \<or> (192 \<le> n \<and> n \<le> 214) \<or> (216 \<le> n \<and> n \<le> 246) \<or>
     (248 \<le> n \<and> n \<le> 255))"

fun contains :: "string \<Rightarrow> string \<Rightarrow> bool" where
  \<comment> \<open>\<^verbatim>\<open>sub in s\<close>\<close>
  "contains sub [] = (sub = [])"
| "contains sub (c # cs) = (prefix sub (c # cs) \<or> contains sub cs)"

function py_count :: "string \<Rightarrow> string \<Rightarrow> nat" where
  \<comment> \<open>\<^verbatim>\<open>s.count(sub)\<close>: occurrences that do not overlap, from the left\<close>
  "py_count sub s =
     (if sub = [] then Suc (length s)
      else if s = [] then 0
      else if prefix sub s then Suc (py_count sub (drop (length sub) s))
      else py_count sub (tl s))"
  by pat_completeness auto
termination
  by (relation "measure (\<lambda>(sub, s). length s)") (auto simp: neq_Nil_conv)

fun digit_char :: "nat \<Rightarrow> char" where
  "digit_char n = char_of (48 + n mod 10)"

function py_str :: "nat \<Rightarrow> string" where
  \<comment> \<open>\<^verbatim>\<open>str(n)\<close> and \<^verbatim>\<open>f'{n}'\<close> for a non-negative integer\<close>
  "py_str n = (if n < 10 then [digit_char n] else py_str (n div 10) @ [digit_char n])"
  by pat_completeness auto
termination
  by (relation "measure id") auto


section \<open>Regular expressions with Python's backtracking order\<close>

text \<open>
  A pattern is a function from its continuation to a matcher. A matcher reads the
  character before the current position (for \<^verbatim>\<open>\b\<close>) and the rest of the text, and
  returns the first success in the order in which \<^verbatim>\<open>re\<close> tries the alternatives:
  alternatives from left to right, greedy repetitions from the longest run down.
\<close>

type_synonym 'a cont = "char option \<Rightarrow> string \<Rightarrow> 'a option"
type_synonym 'a regex = "'a cont \<Rightarrow> 'a cont"

definition lit :: "string \<Rightarrow> 'a regex" where
  "lit l k p s =
     (if prefix l s then k (if l = [] then p else Some (last l)) (drop (length l) s)
      else None)"

primrec cls :: "(char \<Rightarrow> bool) \<Rightarrow> 'a cont \<Rightarrow> char option \<Rightarrow> string \<Rightarrow> 'a option" where
  "cls f k p [] = None"
| "cls f k p (c # cs) = (if f c then k (Some c) cs else None)"

primrec alt :: "'a regex list \<Rightarrow> 'a cont \<Rightarrow> char option \<Rightarrow> string \<Rightarrow> 'a option" where
  "alt [] k p s = None"
| "alt (r # rs) k p s = (case r k p s of Some x \<Rightarrow> Some x | None \<Rightarrow> alt rs k p s)"

primrec star_cls :: "(char \<Rightarrow> bool) \<Rightarrow> 'a cont \<Rightarrow> char option \<Rightarrow> string \<Rightarrow> 'a option" where
  \<comment> \<open>\<^verbatim>\<open>[...]*\<close> on a character class: one more character first, then stop here\<close>
  "star_cls f k p [] = k p []"
| "star_cls f k p (c # cs) =
     (if f c then (case star_cls f k (Some c) cs of Some x \<Rightarrow> Some x | None \<Rightarrow> k p (c # cs))
      else k p (c # cs))"

definition plus_cls :: "(char \<Rightarrow> bool) \<Rightarrow> 'a regex" where
  \<comment> \<open>\<^verbatim>\<open>[...]+\<close>\<close>
  "plus_cls f k = cls f (star_cls f k)"

primrec star_fuel :: "string \<Rightarrow> 'a regex \<Rightarrow> 'a cont \<Rightarrow> char option \<Rightarrow> string \<Rightarrow> 'a option" where
  "star_fuel [] r k p s = k p s"
| "star_fuel (x # fuel) r k p s =
     (case r (star_fuel fuel r k) p s of Some y \<Rightarrow> Some y | None \<Rightarrow> k p s)"

definition star :: "'a regex \<Rightarrow> 'a regex" where
  \<comment> \<open>\<^verbatim>\<open>(?:...)*\<close> on a group that consumes at least one character each time: the
      text itself bounds the number of iterations\<close>
  "star r k p s = star_fuel s r k p s"

definition word_boundary :: "'a regex" where
  \<comment> \<open>\<^verbatim>\<open>\b\<close>\<close>
  "word_boundary k p s =
     (if (case p of None \<Rightarrow> False | Some c \<Rightarrow> is_word c) \<noteq>
         (case s of [] \<Rightarrow> False | c # _ \<Rightarrow> is_word c)
      then k p s else None)"

definition end_of_string :: "'a regex" where
  \<comment> \<open>\<^verbatim>\<open>$\<close> without MULTILINE: at the end, or before a newline that ends the text\<close>
  "end_of_string k p s = (if s = [] \<or> s = [CHR 0x0A] then k p s else None)"

definition capture :: "'a regex \<Rightarrow> (string \<Rightarrow> 'a cont) \<Rightarrow> 'a cont" where
  \<comment> \<open>\<^verbatim>\<open>(...)\<close>: the continuation receives the text the group matched\<close>
  "capture r k p s = r (\<lambda>p' s'. k (take (length s - length s') s) p' s') p s"

definition accept :: "string list \<Rightarrow> (string list \<times> string) cont" where
  \<comment> \<open>the end of a pattern: the groups, and the text after the match\<close>
  "accept gs p s = Some (gs, s)"

type_synonym pattern = "(string list \<times> string) cont"

definition group :: "string list \<Rightarrow> nat \<Rightarrow> py_error + string" where
  \<comment> \<open>\<^verbatim>\<open>match.group(i)\<close> for \<open>i \<ge> 1\<close>\<close>
  "group gs i =
     (if 1 \<le> i \<and> i \<le> length gs then Inr (gs ! (i - 1)) else Inl (IndexError ''no such group''))"

function re_sub :: "pattern \<Rightarrow> (string list \<Rightarrow> py_error + string) \<Rightarrow> char option \<Rightarrow> string
    \<Rightarrow> py_error + string" where
  \<comment> \<open>\<^verbatim>\<open>re.sub(pattern, repl, s)\<close>, from a position whose previous character is \<open>p\<close>.
      No pattern of the two scripts matches the empty text; such a match is skipped.\<close>
  "re_sub pat repl p s =
     (case (case pat p s of
              Some (gs, rest) \<Rightarrow> if length rest < length s then Some (gs, rest) else None
            | None \<Rightarrow> None) of
        Some (gs, rest) \<Rightarrow>
          (case repl gs of
             Inl e \<Rightarrow> Inl e
           | Inr r \<Rightarrow>
              (case re_sub pat repl (Some (s ! (length s - length rest - 1))) rest of
                 Inl e \<Rightarrow> Inl e
               | Inr out \<Rightarrow> Inr (r @ out)))
      | None \<Rightarrow>
          (case s of
             [] \<Rightarrow> Inr []
           | c # cs \<Rightarrow> (case re_sub pat repl (Some c) cs of Inl e \<Rightarrow> Inl e | Inr out \<Rightarrow> Inr (c # out))))"
  by pat_completeness auto
termination
  by (relation "measure (\<lambda>(pat, repl, p, s). length s)") (auto split: option.splits if_splits)

section \<open>update-styles.py\<close>

definition SPACING_MAP :: "(string \<times> string) list" where
  "SPACING_MAP =
     [(''4'', ''spacing.xs''), (''8'', ''spacing.sm''), (''12'', ''spacing.md''),
      (''16'', ''spacing.lg''), (''20'', ''spacing.xl''), (''24'', ''spacing.xxl''),
      (''32'', ''spacing.xxxl''), (''40'', ''spacing.xxxl'')]"

definition FONT_SIZE_MAP :: "(string \<times> string) list" where
  "FONT_SIZE_MAP =
     [(''12'', ''typography.caption''), (''13'', ''typography.body2''),
      (''14'', ''typography.body2''), (''15'', ''typography.body1''),
      (''16'', ''typography.body1''), (''17'', ''typography.subtitle1''),
      (''18'', ''typography.h6''), (''20'', ''typography.h5''), (''22'', ''typography.h5''),
      (''24'', ''typography.h4''), (''26'', ''typography.h4''), (''28'', ''typography.h3''),
      (''30'', ''typography.h3''), (''32'', ''typography.h2''), (''34'', ''typography.h2''),
      (''36'', ''typography.h1'')]"

definition digits_only :: pattern where
  \<comment> \<open>\<^verbatim>\<open>^(\d+)$\<close> under \<^verbatim>\<open>re.match\<close>\<close>
  "digits_only = capture (plus_cls is_digit) (\<lambda>g1. end_of_string (accept [g1]))"

definition update_spacing_property :: "string \<Rightarrow> string" where
  "update_spacing_property v =
     (case digits_only None v of
        Some (gs, rest) \<Rightarrow>
          (case map_of SPACING_MAP (gs ! 0) of Some t \<Rightarrow> t | None \<Rightarrow> v)
      | None \<Rightarrow> v)"

definition update_font_size :: "string \<Rightarrow> string" where
  "update_font_size v =
     (case digits_only None v of
        Some (gs, rest) \<Rightarrow>
          (case map_of FONT_SIZE_MAP (gs ! 0) of Some t \<Rightarrow> t | None \<Rightarrow> v)
      | None \<Rightarrow> v)"

definition replace_spacing :: "string list \<Rightarrow> py_error + string" where
  "replace_spacing gs =
     (case group gs 1 of
        Inl e \<Rightarrow> Inl e
      | Inr prop \<Rightarrow>
         (case group gs 2 of
            Inl e \<Rightarrow> Inl e
          | Inr v \<Rightarrow> Inr (prop @ '': '' @ update_spacing_property v @ '','')))"

definition replace_font_size :: "string list \<Rightarrow> py_error + string" where
  "replace_font_size gs =
     (case group gs 1 of
        Inl e \<Rightarrow> Inl e
      | Inr v \<Rightarrow> Inr (''fontSize: '' @ update_font_size v @ '',''))"

definition spacing_props :: "string list" where
  "spacing_props =
     [''padding'', ''margin'', ''paddingHorizontal'', ''paddingVertical'',
      ''marginHorizontal'', ''marginVertical'', ''paddingTop'', ''paddingBottom'',
      ''paddingLeft'', ''paddingRight'', ''marginTop'', ''marginBottom'', ''marginLeft'',
      ''marginRight'']"

definition spacing_pattern :: pattern where
  \<comment> \<open>\<^verbatim>\<open>(padding|margin|...|marginRight): (\d+),\<close>\<close>
  "spacing_pattern =
     capture (alt (map lit spacing_props))
       (\<lambda>g1. lit '': '' (capture (plus_cls is_digit) (\<lambda>g2. lit '','' (accept [g1, g2]))))"

definition font_size_pattern :: pattern where
  \<comment> \<open>\<^verbatim>\<open>fontSize: (\d+),\<close>\<close>
  "font_size_pattern =
     lit ''fontSize: '' (capture (plus_cls is_digit) (\<lambda>g1. lit '','' (accept [g1])))"

definition gap_pattern :: pattern where
  \<comment> \<open>\<^verbatim>\<open>gap: (\d+),\<close>\<close>
  "gap_pattern = lit ''gap: '' (capture (plus_cls is_digit) (\<lambda>g1. lit '','' (accept [g1])))"

definition border_radius_pattern :: pattern where
  \<comment> \<open>\<^verbatim>\<open>borderRadius: 12,\<close>\<close>
  "border_radius_pattern = lit ''borderRadius: 12,'' (accept [])"

definition size_pattern :: "nat \<Rightarrow> pattern" where
  \<comment> \<open>\<^verbatim>\<open>size={24}\<close> and \<^verbatim>\<open>size={20}\<close>: in a pattern, \<^verbatim>\<open>{n}\<close> repeats the \<^verbatim>\<open>=\<close> before it \<open>n\<close> times\<close>
  "size_pattern n = lit ''size'' (lit (replicate n CHR ''='') (accept []))"

definition template :: "string \<Rightarrow> string list \<Rightarrow> py_error + string" where
  \<comment> \<open>a replacement string without group references\<close>
  "template r gs = Inr r"

definition bind_err :: "py_error + 'a \<Rightarrow> ('a \<Rightarrow> py_error + 'b) \<Rightarrow> py_error + 'b" where
  "bind_err x f = (case x of Inl e \<Rightarrow> Inl e | Inr v \<Rightarrow> f v)"

definition add_tablet_specific_styles :: "string \<Rightarrow> py_error + string" where
  "add_tablet_specific_styles content =
     bind_err (re_sub spacing_pattern replace_spacing None content) (\<lambda>content.
     bind_err (re_sub font_size_pattern replace_font_size None content) (\<lambda>content.
     bind_err (re_sub gap_pattern replace_spacing None content) (\<lambda>content.
     bind_err (re_sub border_radius_pattern
                 (template ''borderRadius: deviceInfo.isTablet ? 14 : 12,'') None content) (\<lambda>content.
     bind_err (re_sub (size_pattern 24)
                 (template ''size={deviceInfo.isTablet ? scale(26) : scale(24)}'') None content) (\<lambda>content.
     re_sub (size_pattern 20)
       (template ''size={deviceInfo.isTablet ? scale(22) : scale(20)}'') None content)))))"

section \<open>update-styles-v2.py\<close>

definition SPACING_MAP_v2 :: "(nat \<times> string) list" where
  "SPACING_MAP_v2 =
     [(4, ''spacing.xs''), (8, ''spacing.sm''), (12, ''spacing.md''), (16, ''spacing.lg''),
      (20, ''spacing.xl''), (24, ''spacing.xxl''), (32, ''spacing.xxxl''),
      (40, ''spacing.xxxl'')]"

definition FONT_SIZE_MAP_v2 :: "(nat \<times> string) list" where
  "FONT_SIZE_MAP_v2 =
     [(12, ''typography.caption''), (13, ''typography.body2''), (14, ''typography.body2''),
      (16, ''typography.body1''), (18, ''typography.h6''), (20, ''typography.h5''),
      (24, ''typography.h4''), (28, ''typography.h3''), (32, ''typography.h2''),
      (36, ''typography.h1'')]"

definition spacing_props_v2 :: "string list" where
  "spacing_props_v2 = spacing_props @ [''gap'']"

definition not_close_brace :: "char \<Rightarrow> bool" where
  \<comment> \<open>\<^verbatim>\<open>[^}]\<close>\<close>
  "not_close_brace c = (c \<noteq> CHR ''}'')"

definition not_gt :: "char \<Rightarrow> bool" where
  \<comment> \<open>\<^verbatim>\<open>[^>]\<close>\<close>
  "not_gt c = (c \<noteq> CHR ''>'')"

definition stylesheet_pattern :: pattern where
  \<comment> \<open>\<^verbatim>\<open>const styles = StyleSheet\.create\({([^}]+(?:{[^}]+}[^}]+)*)\}\);\<close>\<close>
  "stylesheet_pattern =
     lit ''const styles = StyleSheet.create({''
       (capture
          (\<lambda>k. plus_cls not_close_brace
                (star (\<lambda>k'. lit ''{'' (plus_cls not_close_brace
                                 (lit ''}'' (plus_cls not_close_brace k')))) k))
          (\<lambda>g1. lit ''});'' (accept [g1])))"

definition spacing_pattern_v2 :: "nat \<Rightarrow> pattern" where
  \<comment> \<open>\<^verbatim>\<open>\b(padding|margin|...|marginRight|gap):\s*{px}\b\<close>\<close>
  "spacing_pattern_v2 px =
     word_boundary
       (capture (alt (map lit spacing_props_v2))
          (\<lambda>g1. lit '':'' (star_cls is_space (lit (py_str px) (word_boundary (accept [g1]))))))"

definition font_size_pattern_v2 :: "nat \<Rightarrow> pattern" where
  \<comment> \<open>\<^verbatim>\<open>\bfontSize:\s*{px}\b\<close>\<close>
  "font_size_pattern_v2 px =
     word_boundary
       (lit ''fontSize:'' (star_cls is_space (lit (py_str px) (word_boundary (accept [])))))"

definition border_radius_pattern_v2 :: "nat \<Rightarrow> pattern" where
  \<comment> \<open>\<^verbatim>\<open>\bborderRadius:\s*12\b\<close> and \<^verbatim>\<open>\bborderRadius:\s*10\b\<close>\<close>
  "border_radius_pattern_v2 n =
     word_boundary
       (lit ''borderRadius:'' (star_cls is_space (lit (py_str n) (word_boundary (accept [])))))"

definition spacing_template :: "string \<Rightarrow> string list \<Rightarrow> py_error + string" where
  \<comment> \<open>\<^verbatim>\<open>rf'\1: {responsive}'\<close>\<close>
  "spacing_template responsive gs =
     bind_err (group gs 1) (\<lambda>g1. Inr (g1 @ '': '' @ responsive))"

definition font_size_template :: "string \<Rightarrow> string list \<Rightarrow> py_error + string" where
  \<comment> \<open>\<^verbatim>\<open>f'fontSize: {responsive}'\<close>\<close>
  "font_size_template responsive gs = Inr (''fontSize: '' @ responsive)"

fun sub_each :: "(nat \<times> string) list \<Rightarrow> (nat \<Rightarrow> pattern) \<Rightarrow>
    (string \<Rightarrow> string list \<Rightarrow> py_error + string) \<Rightarrow> string \<Rightarrow> py_error + string" where
  \<comment> \<open>\<^verbatim>\<open>for px, responsive in MAP.items(): styles_content = re.sub(...)\<close>\<close>
  "sub_each [] pat repl styles_content = Inr styles_content"
| "sub_each ((px, responsive) # items) pat repl styles_content =
     bind_err (re_sub (pat px) (repl responsive) None styles_content) (sub_each items pat repl)"

definition corner_radius_rule_v2 :: "string \<Rightarrow> py_error + string" where
  \<comment> \<open>the two \<^verbatim>\<open>borderRadius\<close> substitutions of \<^verbatim>\<open>process_stylesheet\<close>\<close>
  "corner_radius_rule_v2 styles_content =
     bind_err (re_sub (border_radius_pattern_v2 12)
                 (template ''borderRadius: deviceInfo.isTablet ? 14 : 12'') None styles_content)
       (\<lambda>styles_content.
          re_sub (border_radius_pattern_v2 10)
            (template ''borderRadius: deviceInfo.isTablet ? 12 : 10'') None styles_content)"

definition process_stylesheet :: "string list \<Rightarrow> py_error + string" where
  "process_stylesheet gs =
     bind_err (group gs 1) (\<lambda>styles_content.
     bind_err (sub_each SPACING_MAP_v2 spacing_pattern_v2 spacing_template styles_content)
       (\<lambda>styles_content.
     bind_err (sub_each FONT_SIZE_MAP_v2 font_size_pattern_v2 font_size_template styles_content)
       (\<lambda>styles_content.
     bind_err (corner_radius_rule_v2 styles_content) (\<lambda>styles_content.
     Inr (''const styles = StyleSheet.create({'' @ styles_content @ ''});'')))))"

definition error_text :: "py_error \<Rightarrow> string" where
  \<comment> \<open>\<^verbatim>\<open>f'{e}'\<close>\<close>
  "error_text e = (case e of IndexError m \<Rightarrow> m | OSError m \<Rightarrow> m)"

definition update_styles_in_stylesheet :: "string \<Rightarrow> string \<times> string list" where
  \<comment> \<open>the new content, and what the \<^verbatim>\<open>except\<close> branch prints\<close>
  "update_styles_in_stylesheet content =
     (case re_sub stylesheet_pattern process_stylesheet None content of
        Inr content' \<Rightarrow> (content', [])
      | Inl e \<Rightarrow> (content, [''    Error in regex replacement: '' @ error_text e]))"

definition ionicons_pattern :: "nat \<Rightarrow> pattern" where
  \<comment> \<open>\<^verbatim>\<open><Ionicons\s+([^>]*)size={24}([^>]*)/>\<close>, and the same with 20\<close>
  "ionicons_pattern n =
     lit ''<Ionicons''
       (plus_cls is_space
          (capture (star_cls not_gt)
             (\<lambda>g1. lit ''size'' (lit (replicate n CHR ''='')
                (capture (star_cls not_gt) (\<lambda>g2. lit ''/>'' (accept [g1, g2])))))))"

definition ionicons_template :: "string \<Rightarrow> string list \<Rightarrow> py_error + string" where
  \<comment> \<open>\<^verbatim>\<open>r'<Ionicons \1size={...}\2/>'\<close>\<close>
  "ionicons_template new_size gs =
     bind_err (group gs 1) (\<lambda>g1. bind_err (group gs 2) (\<lambda>g2.
       Inr (''<Ionicons '' @ g1 @ new_size @ g2 @ ''/>'')))"

definition update_icon_sizes :: "string \<Rightarrow> py_error + string" where
  "update_icon_sizes content =
     bind_err (re_sub (ionicons_pattern 24)
                 (ionicons_template ''size={deviceInfo.isTablet ? scale(26) : scale(24)}'')
                 None content) (\<lambda>content.
     re_sub (ionicons_pattern 20)
       (ionicons_template ''size={deviceInfo.isTablet ? scale(22) : scale(20)}'') None content)"

section \<open>Files, \<^verbatim>\<open>process_file\<close> and \<^verbatim>\<open>main\<close>\<close>

text \<open>
  The file system gives, for every path, what opening and reading the file yields (its
  text, or the exception raised) and whether writing it fails. \<^verbatim>\<open>open(filepath, 'w')\<close>
  either raises, and the file stays as it was, or truncates the file; after that
  \<^verbatim>\<open>f.write(content)\<close> may still raise, and the file then holds the characters that had
  reached it, a prefix of the content. The world also holds what has been printed (one
  entry for each \<^verbatim>\<open>print\<close>) and three ghost logs: the paths opened for reading, the
  contents on which the rewriter has been called, and the path and content of every
  \<^verbatim>\<open>with open(filepath, 'w')\<close> statement that has been reached.
\<close>

datatype write_failure =
    OpenFails py_error
  | WriteFails py_error nat

record world =
  read_result :: "string \<Rightarrow> py_error + string"
  write_error :: "string \<Rightarrow> write_failure option"
  stdout :: "string list"
  read_calls :: "string list"
  rewriter_calls :: "string list"
  write_calls :: "(string \<times> string) list"

definition failure_error :: "write_failure \<Rightarrow> py_error" where
  "failure_error fl = (case fl of OpenFails e \<Rightarrow> e | WriteFails e n \<Rightarrow> e)"

definition print :: "string \<Rightarrow> world \<Rightarrow> world" where
  "print line w = w\<lparr>stdout := stdout w @ [line]\<rparr>"

definition read_text :: "string \<Rightarrow> world \<Rightarrow> (py_error + string) \<times> world" where
  \<comment> \<open>\<^verbatim>\<open>with open(filepath, 'r', encoding='utf-8') as f: content = f.read()\<close>\<close>
  "read_text filepath w = (read_result w filepath, w\<lparr>read_calls := read_calls w @ [filepath]\<rparr>)"

definition write_text :: "string \<Rightarrow> string \<Rightarrow> world \<Rightarrow> (py_error + unit) \<times> world" where
  \<comment> \<open>\<^verbatim>\<open>with open(filepath, 'w', encoding='utf-8') as f: f.write(content)\<close>\<close>
  "write_text filepath content w =
     (let w = w\<lparr>write_calls := write_calls w @ [(filepath, content)]\<rparr>
      in case write_error w filepath of
           None \<Rightarrow> (Inr (), w\<lparr>read_result := (read_result w)(filepath := Inr content)\<rparr>)
         | Some (OpenFails e) \<Rightarrow> (Inl e, w)
         | Some (WriteFails e n) \<Rightarrow>
             (Inl e, w\<lparr>read_result := (read_result w)(filepath := Inr (take n content))\<rparr>))"

definition call_rewriter :: "string \<Rightarrow> world \<Rightarrow> world" where
  "call_rewriter content w = w\<lparr>rewriter_calls := rewriter_calls w @ [content]\<rparr>"

definition process_file_try :: "string \<Rightarrow> world \<Rightarrow> (py_error + bool) \<times> world" where
  \<comment> \<open>the \<^verbatim>\<open>try\<close> block of \<^verbatim>\<open>process_file\<close> in update-styles.py\<close>
  "process_file_try filepath w =
     (case read_text filepath w of
        (Inl e, w) \<Rightarrow> (Inl e, w)
      | (Inr content, w) \<Rightarrow>
          if \<not> contains ''StyleSheet.create'' content then (Inr False, w)
          else if py_count ''deviceInfo.isTablet'' content > 5
          then (Inr False, print (''  Skipping '' @ filepath @ '' (already optimized)'') w)
          else
            (let w = call_rewriter content w in
             case add_tablet_specific_styles content of
               Inl e \<Rightarrow> (Inl e, w)
             | Inr content' \<Rightarrow>
                 if content' \<noteq> content
                 then (case write_text filepath content' w of
                         (Inl e, w') \<Rightarrow> (Inl e, w')
                       | (Inr u, w') \<Rightarrow> (Inr True, w'))
                 else (Inr False, w)))"

definition process_file :: "string \<Rightarrow> world \<Rightarrow> bool \<times> world" where
  "process_file filepath w =
     (case process_file_try filepath w of
        (Inr changed, w') \<Rightarrow> (changed, w')
      | (Inl e, w') \<Rightarrow>
          (False, print (''  Error processing '' @ filepath @ '': '' @ error_text e) w'))"

definition process_file_try_v2 :: "string \<Rightarrow> world \<Rightarrow> (py_error + bool) \<times> world" where
  \<comment> \<open>the \<^verbatim>\<open>try\<close> block of \<^verbatim>\<open>process_file\<close> in update-styles-v2.py\<close>
  "process_file_try_v2 filepath w =
     (case read_text filepath w of
        (Inl e, w) \<Rightarrow> (Inl e, w)
      | (Inr content, w) \<Rightarrow>
          if \<not> contains ''StyleSheet.create'' content then (Inr False, w)
          else if py_count ''deviceInfo.isTablet'' content > 10 then (Inr False, w)
          else
            (let w = call_rewriter content w;
                 (content1, lines) = update_styles_in_stylesheet content;
                 w = w\<lparr>stdout := stdout w @ lines\<rparr>
             in case update_icon_sizes content1 of
               Inl e \<Rightarrow> (Inl e, w)
             | Inr content' \<Rightarrow>
                 if content' \<noteq> content
                 then (case write_text filepath content' w of
                         (Inl e, w') \<Rightarrow> (Inl e, w')
                       | (Inr u, w') \<Rightarrow> (Inr True, w'))
                 else (Inr False, w)))"

definition process_file_v2 :: "string \<Rightarrow> world \<Rightarrow> bool \<times> world" where
  "process_file_v2 filepath w =
     (case process_file_try_v2 filepath w of
        (Inr changed, w') \<Rightarrow> (changed, w')
      | (Inl e, w') \<Rightarrow>
          (False, print (''    Error processing '' @ filepath @ '': '' @ error_text e) w'))"








section \<open>Notions for the statements and their proofs\<close>

definition prev_char :: "char option \<Rightarrow> string \<Rightarrow> char option" where
  \<comment> \<open>the character before the position reached after reading \<open>u\<close>\<close>
  "prev_char p u = (if u = [] then p else Some (last u))"

fun re_search :: "pattern \<Rightarrow> char option \<Rightarrow> string \<Rightarrow> bool" where
  \<comment> \<open>\<^verbatim>\<open>re.search(pattern, s) is not None\<close>: the pattern matches at some position\<close>
  "re_search pat p [] = (pat p [] \<noteq> None)"
| "re_search pat p (c # cs) = (pat p (c # cs) \<noteq> None \<or> re_search pat (Some c) cs)"

definition digits :: "string \<Rightarrow> bool" where
  \<comment> \<open>a literal integer: what \<^verbatim>\<open>\d+\<close> matches\<close>
  "digits d = (d \<noteq> [] \<and> list_all is_digit d)"

definition passes :: "'a regex \<Rightarrow> bool" where
  \<comment> \<open>the pattern hands its continuation a rest of the text it was given\<close>
  "passes r = (\<forall>k p s x. r k p s = Some x \<longrightarrow> (\<exists>m s' p'. s = m @ s' \<and> k p' s' = Some x))"


definition unaffected :: "pattern \<Rightarrow> char option \<Rightarrow> string \<Rightarrow> string \<Rightarrow> bool" where
  "unaffected pat p u w =
     (\<forall>u1 u2. u = u1 @ u2 \<and> u2 \<noteq> [] \<longrightarrow>
        (pat (prev_char p u1) u2 = None \<longrightarrow> pat (prev_char p u1) (u2 @ w) = None) \<and>
        (\<forall>gs rest. pat (prev_char p u1) u2 = Some (gs, rest) \<longrightarrow>
            (\<exists>m. m \<noteq> [] \<and> u2 = m @ rest) \<and>
            pat (prev_char p u1) (u2 @ w) = Some (gs, rest @ w)))"

definition tracked_declarations :: "string list" where
  \<comment> \<open>the declarations that a rule of update-styles.py rewrites: a spacing property or
      \<^verbatim>\<open>fontSize\<close> with a key of its table, \<^verbatim>\<open>borderRadius: 12,\<close>, and the two texts that the
      patterns \<^verbatim>\<open>size={24}\<close> and \<^verbatim>\<open>size={20}\<close> match\<close>
  "tracked_declarations =
     concat (map (\<lambda>nm. map (\<lambda>k. nm @ '': '' @ k @ '','') (map fst SPACING_MAP)) spacing_props) @
     map (\<lambda>k. ''fontSize: '' @ k @ '','') (map fst FONT_SIZE_MAP) @
     [''borderRadius: 12,'', ''size'' @ replicate 24 CHR ''='', ''size'' @ replicate 20 CHR ''='']"

definition untracked :: "string \<Rightarrow> bool" where
  \<comment> \<open>the content holds none of them, and no \<^verbatim>\<open>gap\<close> declaration with a literal integer\<close>
  "untracked content =
     (list_all (\<lambda>l. \<not> contains l content) tracked_declarations \<and>
      \<not> re_search gap_pattern None content)"

definition tracked_numbers_v2 :: "nat list" where
  \<comment> \<open>the literals that a rule of update-styles-v2.py looks for inside a style block\<close>
  "tracked_numbers_v2 = map fst SPACING_MAP_v2 @ map fst FONT_SIZE_MAP_v2 @ [12, 10]"

definition untracked_v2 :: "string \<Rightarrow> bool" where
  \<comment> \<open>the content holds none of these numbers, and no tag that an icon rule matches\<close>
  "untracked_v2 content =
     (list_all (\<lambda>px. \<not> contains (py_str px) content) tracked_numbers_v2 \<and>
      \<not> re_search (ionicons_pattern 24) None content \<and>
      \<not> re_search (ionicons_pattern 20) None content)"

section \<open>Concrete inputs\<close>



definition world_with :: "string \<Rightarrow> world" where
  \<comment> \<open>every file holds the given text and can be written; nothing printed yet\<close>
  "world_with content =
     \<lparr>read_result = (\<lambda>f. Inr content), write_error = (\<lambda>f. None), stdout = [],
      read_calls = [], rewriter_calls = [], write_calls = []\<rparr>"

definition plain_file :: string where
  \<comment> \<open>a file without a style sheet\<close>
  "plain_file = ''export const answer = 42;''"

definition converted_file :: string where
  \<comment> \<open>a file with a style sheet and six conversion markers\<close>
  "converted_file =
     ''StyleSheet.create deviceInfo.isTablet deviceInfo.isTablet deviceInfo.isTablet deviceInfo.isTablet deviceInfo.isTablet deviceInfo.isTablet''"

definition gap_file :: string where
  "gap_file =
     ''const styles = StyleSheet.create({\<newline>  row: {\<newline>    gap: 8,\<newline>    padding: 16,\<newline>  },\<newline>});''"

definition gap_file_v2 :: string where
  "gap_file_v2 =
     ''const styles = StyleSheet.create({\<newline>  row: {\<newline>    gap: spacing.sm,\<newline>    padding: spacing.lg,\<newline>  },\<newline>});''"

definition failing_world :: "string \<Rightarrow> string \<Rightarrow> world" where
  \<comment> \<open>the file \<open>bad\<close> cannot be read; every other file holds the given text\<close>
  "failing_world bad content =
     \<lparr>read_result = (\<lambda>f. if f = bad then Inl (OSError ''Permission denied'') else Inr content),
      write_error = (\<lambda>f. None), stdout = [], read_calls = [], rewriter_calls = [],
      write_calls = []\<rparr>"

definition read_only_world :: "string \<Rightarrow> world" where
  \<comment> \<open>every file holds the given text and none can be opened for writing\<close>
  "read_only_world content =
     \<lparr>read_result = (\<lambda>f. Inr content),
      write_error = (\<lambda>f. Some (OpenFails (OSError ''Read-only file system''))), stdout = [],
      read_calls = [], rewriter_calls = [], write_calls = []\<rparr>"

definition full_disk_world :: "string \<Rightarrow> world" where
  \<comment> \<open>every file holds the given text; a write fails after the file has been truncated\<close>
  "full_disk_world content =
     \<lparr>read_result = (\<lambda>f. Inr content),
      write_error = (\<lambda>f. Some (WriteFails (OSError ''No space left on device'') 0)),
      stdout = [], read_calls = [], rewriter_calls = [], write_calls = []\<rparr>"

definition untracked_file :: string where
  \<comment> \<open>a style sheet whose only literals, 1 and 5, are in no table\<close>
  "untracked_file =
     ''const styles = StyleSheet.create({\<newline>  row: {\<newline>    flex: 1,\<newline>    padding: 5,\<newline>  },\<newline>});''"

definition last_property_file :: string where
  \<comment> \<open>a declaration that ends its block, without a trailing comma\<close>
  "last_property_file =
     ''const styles = StyleSheet.create({\<newline>  box: {\<newline>    padding: 16\<newline>  }\<newline>});''"

definition last_property_file_v2 :: string where
  "last_property_file_v2 =
     ''const styles = StyleSheet.create({\<newline>  box: {\<newline>    padding: spacing.lg\<newline>  }\<newline>});''"




definition gap5_file :: string where
  \<comment> \<open>a style sheet whose literals, 1 and 5, are keys of no table\<close>
  "gap5_file =
     ''const styles = StyleSheet.create({\<newline>  row: {\<newline>    flex: 1,\<newline>    gap: 5,\<newline>  },\<newline>});''"




section \<open>Character classes, bit by bit\<close>

declare py_count.simps [simp del] py_str.simps [simp del] re_sub.simps [simp del]

lemma is_digit_code [code]:
  "is_digit (Char b0 b1 b2 b3 b4 b5 b6 b7) =
     (\<not> b7 \<and> \<not> b6 \<and> b5 \<and> b4 \<and> (\<not> b3 \<or> (\<not> b2 \<and> \<not> b1)))"
  by (cases b0; cases b1; cases b2; cases b3; cases b4; cases b5; cases b6; cases b7;
      simp add: is_digit_def)

lemma is_space_code [code]:
  "is_space (Char b0 b1 b2 b3 b4 b5 b6 b7) =
     ((\<not> b7 \<and> \<not> b6 \<and> \<not> b5 \<and> \<not> b4 \<and> b3 \<and> ((\<not> b2 \<and> (b1 \<or> b0)) \<or> (b2 \<and> \<not> b1))) \<or>
      (\<not> b7 \<and> \<not> b6 \<and> \<not> b5 \<and> b4 \<and> b3 \<and> b2) \<or>
      (\<not> b6 \<and> b5 \<and> \<not> b4 \<and> \<not> b3 \<and> \<not> b2 \<and> \<not> b1 \<and> \<not> b0) \<or>
      (b7 \<and> \<not> b6 \<and> \<not> b5 \<and> \<not> b4 \<and> \<not> b3 \<and> b2 \<and> \<not> b1 \<and> b0))"
  by (cases b0; cases b1; cases b2; cases b3; cases b4; cases b5; cases b6; cases b7;
      simp add: is_space_def)

lemma is_word_code [code]:
  "is_word (Char b0 b1 b2 b3 b4 b5 b6 b7) =
     ((\<not> b7 \<and> \<not> b6 \<and> b5 \<and> b4 \<and> (\<not> b3 \<or> (\<not> b2 \<and> \<not> b1))) \<or>
      (\<not> b7 \<and> b6 \<and> (b4 \<or> b3 \<or> b2 \<or> b1 \<or> b0) \<and> \<not> (b4 \<and> b3 \<and> (b2 \<or> (b1 \<and> b0)))) \<or>
      (\<not> b7 \<and> b6 \<and> \<not> b5 \<and> b4 \<and> b3 \<and> b2 \<and> b1 \<and> b0) \<or>
      (b7 \<and> b6 \<and> \<not> (b4 \<and> \<not> b3 \<and> b2 \<and> b1 \<and> b0)) \<or>
      (b7 \<and> \<not> b6 \<and> b5 \<and> \<not> b4 \<and> b3 \<and> \<not> b2 \<and> b1 \<and> \<not> b0) \<or>
      (b7 \<and> \<not> b6 \<and> b5 \<and> b4 \<and>
         ((\<not> b3 \<and> \<not> b2 \<and> b1) \<or> (\<not> b3 \<and> b2 \<and> \<not> b1 \<and> b0) \<or> (b3 \<and> \<not> b2 \<and> (b1 \<noteq> b0)) \<or>
          (b3 \<and> b2 \<and> \<not> (b1 \<and> b0)))))"
  by (cases b0; cases b1; cases b2; cases b3; cases b4; cases b5; cases b6; cases b7;
      simp add: is_word_def)

section \<open>Facts about the matchers and \<^verbatim>\<open>re.sub\<close>\<close>

lemma contains_iff_sublist: "contains sub s = sublist sub s"
  by (induction s) (auto simp: sublist_Cons_right)

lemma lit_append [simp]: "l \<noteq> [] \<Longrightarrow> lit l k p (l @ t) = k (Some (last l)) t"
  by (simp add: lit_def)

lemma lit_SomeD:
  "lit l k p s = Some x \<Longrightarrow> \<exists>t. s = l @ t \<and> k (prev_char p l) t = Some x"
  by (auto simp: lit_def prev_char_def prefix_def split: if_splits)

lemma lit_None: "\<not> prefix l s \<Longrightarrow> lit l k p s = None"
  by (simp add: lit_def)

lemma star_cls_det:
  assumes "\<And>p' c t. f c \<Longrightarrow> k p' (c # t) = None"
  shows "star_cls f k p s = k (prev_char p (takeWhile f s)) (dropWhile f s)"
proof (induction s arbitrary: p)
  case Nil
  then show ?case by (simp add: prev_char_def)
next
  case (Cons c cs)
  show ?case
  proof (cases "f c")
    case True
    have "star_cls f k (Some c) cs = k (prev_char (Some c) (takeWhile f cs)) (dropWhile f cs)"
      by (rule Cons.IH)
    moreover have "prev_char (Some c) (takeWhile f cs) = prev_char p (takeWhile f (c # cs))"
      using True by (simp add: prev_char_def)
    moreover have "k p (c # cs) = None" using True assms by simp
    ultimately show ?thesis using True by (simp split: option.splits)
  next
    case False
    then show ?thesis by (simp add: prev_char_def)
  qed
qed

lemma re_sub_Nil [simp]: "re_sub pat repl p [] = Inr []"
  by (subst re_sub.simps) (simp split: option.splits)

lemma re_sub_no_match:
  "pat p (c # cs) = None \<Longrightarrow>
   re_sub pat repl p (c # cs) =
     (case re_sub pat repl (Some c) cs of Inl e \<Rightarrow> Inl e | Inr out \<Rightarrow> Inr (c # out))"
  by (subst re_sub.simps) simp

lemma re_sub_match:
  "pat p (m @ rest) = Some (gs, rest) \<Longrightarrow> m \<noteq> [] \<Longrightarrow>
   re_sub pat repl p (m @ rest) =
     (case repl gs of
        Inl e \<Rightarrow> Inl e
      | Inr r \<Rightarrow> (case re_sub pat repl (Some (last m)) rest of
                   Inl e \<Rightarrow> Inl e | Inr out \<Rightarrow> Inr (r @ out)))"
proof -
  assume a: "pat p (m @ rest) = Some (gs, rest)" and b: "m \<noteq> []"
  have "(m @ rest) ! (length (m @ rest) - length rest - 1) = last m"
    using b by (simp add: nth_append last_conv_nth)
  then show ?thesis using a b by (subst re_sub.simps) (simp cong: sum.case_cong)
qed

lemma re_search_append:
  "re_search pat p (u @ t) \<longleftrightarrow>
     (\<exists>u1 u2. u = u1 @ u2 \<and> u2 \<noteq> [] \<and> pat (prev_char p u1) (u2 @ t) \<noteq> None) \<or>
     re_search pat (prev_char p u) t"
proof (induction u arbitrary: p)
  case Nil
  then show ?case by (simp add: prev_char_def)
next
  case (Cons c u)
  have a: "(\<exists>u1 u2. c # u = u1 @ u2 \<and> u2 \<noteq> [] \<and> pat (prev_char p u1) (u2 @ t) \<noteq> None) \<longleftrightarrow>
           pat p (c # u @ t) \<noteq> None \<or>
           (\<exists>u1 u2. u = u1 @ u2 \<and> u2 \<noteq> [] \<and> pat (prev_char (Some c) u1) (u2 @ t) \<noteq> None)"
    (is "?L \<longleftrightarrow> ?A \<or> ?R")
  proof
    assume ?L
    then obtain u1 u2 where h: "c # u = u1 @ u2" "u2 \<noteq> []" "pat (prev_char p u1) (u2 @ t) \<noteq> None"
      by blast
    show "?A \<or> ?R"
    proof (cases u1)
      case Nil
      with h show ?thesis by (auto simp: prev_char_def)
    next
      case (Cons d u1')
      with h have "u = u1' @ u2" "prev_char p u1 = prev_char (Some c) u1'"
        by (auto simp: prev_char_def)
      with h show ?thesis by metis
    qed
  next
    assume "?A \<or> ?R"
    then show ?L
    proof
      assume ?A
      then have "c # u = [] @ (c # u) \<and> c # u \<noteq> [] \<and> pat (prev_char p []) ((c # u) @ t) \<noteq> None"
        by (simp add: prev_char_def)
      then show ?L by blast
    next
      assume ?R
      then obtain u1 u2 where h: "u = u1 @ u2" "u2 \<noteq> []" "pat (prev_char (Some c) u1) (u2 @ t) \<noteq> None"
        by blast
      then have "c # u = (c # u1) @ u2 \<and> u2 \<noteq> [] \<and> pat (prev_char p (c # u1)) (u2 @ t) \<noteq> None"
        by (auto simp: prev_char_def)
      then show ?L by blast
    qed
  qed
  have b: "prev_char (Some c) u = prev_char p (c # u)" by (simp add: prev_char_def)
  show ?case using Cons.IH[of "Some c"] a b by auto
qed

lemma re_sub_not_found: "\<not> re_search pat p s \<Longrightarrow> re_sub pat repl p s = Inr s"
proof (induction s arbitrary: p)
  case Nil
  then show ?case by simp
next
  case (Cons c cs)
  then show ?case by (cases "pat p (c # cs)") (auto simp: re_sub_no_match)
qed

lemma capture_plus_det:
  assumes "\<And>g p' c t. f c \<Longrightarrow> K g p' (c # t) = None"
  shows "capture (plus_cls f) K p s =
     (if takeWhile f s = [] then None
      else K (takeWhile f s) (Some (last (takeWhile f s))) (dropWhile f s))"
proof (cases s)
  case Nil
  then show ?thesis by (simp add: capture_def plus_cls_def)
next
  case (Cons c cs)
  show ?thesis
  proof (cases "f c")
    case False
    then show ?thesis using Cons by (simp add: capture_def plus_cls_def)
  next
    case True
    let ?k = "\<lambda>p' s'. K (take (length s - length s') s) p' s'"
    have fail: "\<And>p' c t. f c \<Longrightarrow> ?k p' (c # t) = None" using assms by simp
    have len: "length s - length (dropWhile f cs) = length (takeWhile f s)"
      using Cons True
      by (metis add_diff_cancel_right' dropWhile.simps(2) length_append takeWhile_dropWhile_id)
    have tk: "take (length (takeWhile f s)) s = takeWhile f s"
      by (metis append_eq_conv_conj takeWhile_dropWhile_id)
    have "capture (plus_cls f) K p s = star_cls f ?k (Some c) cs"
      using Cons True by (simp add: capture_def plus_cls_def)
    also have "\<dots> = ?k (prev_char (Some c) (takeWhile f cs)) (dropWhile f cs)"
      by (rule star_cls_det) (rule fail)
    also have "\<dots> = K (takeWhile f s) (Some (last (takeWhile f s))) (dropWhile f s)"
      using Cons True len tk by (simp add: prev_char_def)
    finally show ?thesis using Cons True by simp
  qed
qed

lemma takeWhile_run:
  "list_all f d \<Longrightarrow> (t = [] \<or> \<not> f (hd t)) \<Longrightarrow> takeWhile f (d @ t) = d \<and> dropWhile f (d @ t) = t"
  by (induction d) (cases t; auto)+

lemma comma_not_digit [simp]: "\<not> is_digit CHR '',''"
  by (simp add: is_digit_def)

lemma digits_then_comma:
  "capture (plus_cls is_digit) (\<lambda>g. lit '','' (K g)) p s = Some x \<longleftrightarrow>
     (\<exists>d rest. digits d \<and> s = d @ '','' @ rest \<and> K d (Some CHR '','') rest = Some x)"
proof -
  have fail: "\<And>g p' c t. is_digit c \<Longrightarrow> lit '','' (K g) p' (c # t) = None"
    by (auto simp: lit_def)
  show ?thesis
  proof
    assume "capture (plus_cls is_digit) (\<lambda>g. lit '','' (K g)) p s = Some x"
    then have a: "takeWhile is_digit s \<noteq> []"
      and b: "lit '','' (K (takeWhile is_digit s)) (Some (last (takeWhile is_digit s)))
               (dropWhile is_digit s) = Some x"
      by (auto simp: capture_plus_det[where K="\<lambda>g. lit '','' (K g)", OF fail] split: if_splits)
    from lit_SomeD[OF b] obtain rest where
      r: "dropWhile is_digit s = '','' @ rest" "K (takeWhile is_digit s) (Some CHR '','') rest = Some x"
      by (auto simp: prev_char_def)
    have "s = takeWhile is_digit s @ '','' @ rest"
      using r(1) by (metis takeWhile_dropWhile_id)
    moreover have "digits (takeWhile is_digit s)"
      using a by (simp add: digits_def list_all_iff) (meson set_takeWhileD)
    ultimately show "\<exists>d rest. digits d \<and> s = d @ '','' @ rest \<and> K d (Some CHR '','') rest = Some x"
      using r(2) by blast
  next
    assume "\<exists>d rest. digits d \<and> s = d @ '','' @ rest \<and> K d (Some CHR '','') rest = Some x"
    then obtain d rest where h: "digits d" "s = d @ '','' @ rest" "K d (Some CHR '','') rest = Some x"
      by blast
    have tw: "takeWhile is_digit s = d \<and> dropWhile is_digit s = '','' @ rest"
      using takeWhile_run[of is_digit d "'','' @ rest"] h by (simp add: digits_def)
    show "capture (plus_cls is_digit) (\<lambda>g. lit '','' (K g)) p s = Some x"
      using h tw by (simp add: capture_plus_det[where K="\<lambda>g. lit '','' (K g)", OF fail] digits_def lit_def)
  qed
qed

lemma alt_lits_SomeD:
  "alt (map lit ls) k p s = Some x \<Longrightarrow> \<exists>l\<in>set ls. lit l k p s = Some x"
  by (induction ls) (auto split: option.splits)

lemma alt_lits_SomeI:
  "l \<in> set ls \<Longrightarrow> lit l k p s = Some x \<Longrightarrow>
   (\<And>l'. l' \<in> set ls \<Longrightarrow> lit l' k p s = None \<or> lit l' k p s = Some x) \<Longrightarrow>
   alt (map lit ls) k p s = Some x"
proof (induction ls)
  case Nil
  then show ?case by simp
next
  case (Cons a ls)
  show ?case
  proof (cases "lit a k p s")
    case None
    then have "l \<in> set ls" using Cons.prems by auto
    then show ?thesis using Cons None by auto
  next
    case (Some y)
    then show ?thesis using Cons.prems(3)[of a] by auto
  qed
qed

lemma lit_Some_iff:
  "lit l k p s = Some x \<longleftrightarrow> (\<exists>t. s = l @ t \<and> k (prev_char p l) t = Some x)"
  by (auto simp: lit_def prev_char_def prefix_def)

lemma digits_no_comma: "digits d \<Longrightarrow> CHR '','' \<notin> set d"
  by (auto simp: digits_def list_all_iff)

lemma split_first:
  "c \<notin> set a \<Longrightarrow> c \<notin> set b \<Longrightarrow> a @ c # x = b @ c # y \<Longrightarrow> a = b \<and> x = y"
proof (induction a arbitrary: b)
  case Nil
  then show ?case by (cases b) auto
next
  case (Cons e a)
  then show ?case by (cases b) auto
qed

lemma digits_split_unique:
  "digits d \<Longrightarrow> digits d' \<Longrightarrow> d @ '','' @ r = d' @ '','' @ r' \<Longrightarrow> d = d' \<and> r = r'"
  using split_first[of "CHR '',''" d d' r r'] digits_no_comma by simp

lemma font_size_pattern_iff:
  "font_size_pattern p s = Some (gs, rest) \<longleftrightarrow>
     (\<exists>d. digits d \<and> s = ''fontSize: '' @ d @ '','' @ rest \<and> gs = [d])"
  unfolding font_size_pattern_def lit_Some_iff digits_then_comma
  by (auto simp: accept_def)

lemma gap_pattern_iff:
  "gap_pattern p s = Some (gs, rest) \<longleftrightarrow>
     (\<exists>d. digits d \<and> s = ''gap: '' @ d @ '','' @ rest \<and> gs = [d])"
  unfolding gap_pattern_def lit_Some_iff digits_then_comma
  by (auto simp: accept_def)

lemma border_radius_pattern_iff:
  "border_radius_pattern p s = Some (gs, rest) \<longleftrightarrow>
     (s = ''borderRadius: 12,'' @ rest \<and> gs = [])"
  unfolding border_radius_pattern_def lit_Some_iff
  by (auto simp: accept_def)

lemma size_pattern_iff:
  "size_pattern n p s = Some (gs, rest) \<longleftrightarrow>
     (s = ''size'' @ replicate n CHR ''='' @ rest \<and> gs = [])"
  unfolding size_pattern_def lit_Some_iff
  by (auto simp: accept_def)

lemma spacing_props_no_colon: "nm \<in> set spacing_props \<Longrightarrow> CHR '':'' \<notin> set nm"
  by (auto simp: spacing_props_def)

lemma spacing_props_nonempty: "nm \<in> set spacing_props \<Longrightarrow> nm \<noteq> []"
  by (auto simp: spacing_props_def)

lemma spacing_alt_iff:
  "lit l (\<lambda>p' s'. lit '': '' (capture (plus_cls is_digit) (\<lambda>g2. lit '','' (accept [take (length s - length s') s, g2]))) p' s') p s
      = Some (gs, rest) \<longleftrightarrow>
   (\<exists>d. digits d \<and> s = l @ '': '' @ d @ '','' @ rest \<and> gs = [l, d])"
  unfolding lit_Some_iff digits_then_comma
  by (auto simp: accept_def)

lemma spacing_pattern_iff:
  "spacing_pattern p s = Some (gs, rest) \<longleftrightarrow>
     (\<exists>nm d. nm \<in> set spacing_props \<and> digits d \<and>
        s = nm @ '': '' @ d @ '','' @ rest \<and> gs = [nm, d])"
proof
  assume "spacing_pattern p s = Some (gs, rest)"
  then obtain l where "l \<in> set spacing_props"
    "lit l (\<lambda>p' s'. lit '': '' (capture (plus_cls is_digit) (\<lambda>g2. lit '','' (accept [take (length s - length s') s, g2]))) p' s') p s
      = Some (gs, rest)"
    unfolding spacing_pattern_def capture_def[of "alt (map lit spacing_props)"]
    by (auto dest: alt_lits_SomeD)
  then show "\<exists>nm d. nm \<in> set spacing_props \<and> digits d \<and>
        s = nm @ '': '' @ d @ '','' @ rest \<and> gs = [nm, d]"
    unfolding spacing_alt_iff by blast
next
  assume "\<exists>nm d. nm \<in> set spacing_props \<and> digits d \<and>
        s = nm @ '': '' @ d @ '','' @ rest \<and> gs = [nm, d]"
  then obtain nm d where h: "nm \<in> set spacing_props" "digits d"
    "s = nm @ '': '' @ d @ '','' @ rest" "gs = [nm, d]" by blast
  let ?k = "\<lambda>p' s'. lit '': '' (capture (plus_cls is_digit) (\<lambda>g2. lit '','' (accept [take (length s - length s') s, g2]))) p' s'"
  have 1: "lit nm ?k p s = Some (gs, rest)"
    unfolding spacing_alt_iff using h by blast
  have 2: "\<And>l'. l' \<in> set spacing_props \<Longrightarrow>
      lit l' ?k p s = None \<or> lit l' ?k p s = Some (gs, rest)"
  proof -
    fix l' assume that: "l' \<in> set spacing_props"
    show "lit l' ?k p s = None \<or> lit l' ?k p s = Some (gs, rest)"
  proof (cases "lit l' ?k p s")
    case None
    then show ?thesis by simp
  next
    case (Some y)
    obtain gs' rest' where y: "y = (gs', rest')" by (cases y)
    from Some y have "lit l' ?k p s = Some (gs', rest')" by simp
    then obtain d' where h': "digits d'" "s = l' @ '': '' @ d' @ '','' @ rest'" "gs' = [l', d']"
      unfolding spacing_alt_iff by blast
    have "nm @ CHR '':'' # ('' '' @ d @ '','' @ rest) = l' @ CHR '':'' # ('' '' @ d' @ '','' @ rest')"
      using h(3) h'(2) by simp
    then have e: "nm = l'" "'' '' @ d @ '','' @ rest = '' '' @ d' @ '','' @ rest'"
      using split_first[of "CHR '':''" nm l'] spacing_props_no_colon h(1) that
      by blast+
    then have "d = d' \<and> rest = rest'"
      using digits_split_unique[OF h(2) h'(1)] by simp
    then show ?thesis using Some y h h' e by simp
  qed
  qed
  show "spacing_pattern p s = Some (gs, rest)"
    unfolding spacing_pattern_def capture_def[of "alt (map lit spacing_props)"]
    by (rule alt_lits_SomeI[OF h(1) 1 2])
qed

lemma prev_char_append: "prev_char p (u @ v) = prev_char (prev_char p u) v"
  by (simp add: prev_char_def)

lemma prev_char_Cons: "prev_char p (c # u) = prev_char (Some c) u"
  by (simp add: prev_char_def)

lemma re_sub_identity:
  assumes "\<And>u t gs rest. s = u @ t \<Longrightarrow> pat (prev_char p u) t = Some (gs, rest) \<Longrightarrow>
             \<exists>m. m \<noteq> [] \<and> t = m @ rest \<and> repl gs = Inr m"
  shows "re_sub pat repl p s = Inr s"
  using assms
proof (induction "length s" arbitrary: s p rule: less_induct)
  case less
  show ?case
  proof (cases "pat p s")
    case None
    show ?thesis
    proof (cases s)
      case Nil
      then show ?thesis by simp
    next
      case (Cons c cs)
      have "re_sub pat repl (Some c) cs = Inr cs"
      proof (rule less.hyps)
        show "length cs < length s" using Cons by simp
      next
        fix u t gs rest
        assume "cs = u @ t" "pat (prev_char (Some c) u) t = Some (gs, rest)"
        then have "s = (c # u) @ t" "pat (prev_char p (c # u)) t = Some (gs, rest)"
          using Cons by (simp_all add: prev_char_Cons)
        then show "\<exists>m. m \<noteq> [] \<and> t = m @ rest \<and> repl gs = Inr m"
          by (rule less.prems)
      qed
      then show ?thesis using None Cons by (simp add: re_sub_no_match)
    qed
  next
    case (Some y)
    obtain gs rest where y: "y = (gs, rest)" by (cases y)
    have "s = [] @ s" "pat (prev_char p []) s = Some (gs, rest)"
      using Some y by (simp_all add: prev_char_def)
    then obtain m where m: "m \<noteq> []" "s = m @ rest" "repl gs = Inr m"
      using less.prems by blast
    have "re_sub pat repl (Some (last m)) rest = Inr rest"
    proof (rule less.hyps)
      show "length rest < length s" using m by simp
    next
      fix u t gs' rest'
      assume "rest = u @ t" "pat (prev_char (Some (last m)) u) t = Some (gs', rest')"
      then have "s = (m @ u) @ t" "pat (prev_char p (m @ u)) t = Some (gs', rest')"
        using m by (simp_all add: prev_char_append) (simp add: prev_char_def)
      then show "\<exists>m. m \<noteq> [] \<and> t = m @ rest' \<and> repl gs' = Inr m"
        by (rule less.prems)
    qed
    moreover have "pat p (m @ rest) = Some (gs, rest)" using Some y m by simp
    ultimately show ?thesis
      using re_sub_match[of pat p m rest gs repl] m by simp
  qed
qed

lemma newline_not_digit [simp]: "\<not> is_digit (CHR 0x0A)"
  by (simp add: is_digit_def)

lemma digits_only_digits: "digits d \<Longrightarrow> digits_only None d = Some ([d], [])"
proof -
  assume d: "digits d"
  have fail: "\<And>g p' c t. is_digit c \<Longrightarrow> end_of_string (accept [g]) p' (c # t) = None"
    by (auto simp: end_of_string_def)
  have tw: "takeWhile is_digit d = d" "dropWhile is_digit d = []"
    using d by (simp_all add: digits_def list_all_iff)
  have ne: "d \<noteq> []" using d by (simp add: digits_def)
  have "capture (plus_cls is_digit) (\<lambda>g. end_of_string (accept [g])) None d =
     (if takeWhile is_digit d = [] then None
      else end_of_string (accept [takeWhile is_digit d]) (Some (last (takeWhile is_digit d)))
             (dropWhile is_digit d))"
    using fail by (rule capture_plus_det)
  then show ?thesis
    unfolding digits_only_def tw using ne by (simp add: end_of_string_def accept_def)
qed

lemma update_spacing_property_digits:
  "digits d \<Longrightarrow>
   update_spacing_property d = (case map_of SPACING_MAP d of Some t \<Rightarrow> t | None \<Rightarrow> d)"
  by (simp add: update_spacing_property_def digits_only_digits)

lemma update_font_size_digits:
  "digits d \<Longrightarrow>
   update_font_size d = (case map_of FONT_SIZE_MAP d of Some t \<Rightarrow> t | None \<Rightarrow> d)"
  by (simp add: update_font_size_def digits_only_digits)

lemma replace_spacing_two:
  "replace_spacing [nm, d] = Inr (nm @ '': '' @ update_spacing_property d @ '','')"
  by (simp add: replace_spacing_def group_def)

lemma replace_spacing_one: "replace_spacing [d] = Inl (IndexError ''no such group'')"
  by (simp add: replace_spacing_def group_def)

lemma replace_font_size_one:
  "replace_font_size [d] = Inr (''fontSize: '' @ update_font_size d @ '','')"
  by (simp add: replace_font_size_def group_def)

lemma gap_sub_raises:
  "re_search gap_pattern p s \<Longrightarrow>
   re_sub gap_pattern replace_spacing p s = Inl (IndexError ''no such group'')"
proof (induction s arbitrary: p)
  case Nil
  then show ?case by (auto simp: gap_pattern_iff)
next
  case (Cons c cs)
  show ?case
  proof (cases "gap_pattern p (c # cs)")
    case None
    then show ?thesis using Cons by (simp add: re_sub_no_match)
  next
    case (Some y)
    obtain gs rest where y: "y = (gs, rest)" by (cases y)
    with Some obtain d where d: "digits d" "c # cs = ''gap: '' @ d @ '','' @ rest" "gs = [d]"
      by (auto simp: gap_pattern_iff)
    have "gap_pattern p ((''gap: '' @ d @ '','') @ rest) = Some (gs, rest)"
      using Some y d by simp
    from re_sub_match[of gap_pattern p "''gap: '' @ d @ '',''" rest gs replace_spacing] this d
    show ?thesis
      by (simp add: replace_spacing_one)
  qed
qed

lemma gap_sub_cases:
  "re_sub gap_pattern replace_spacing p s =
     (if re_search gap_pattern p s then Inl (IndexError ''no such group'') else Inr s)"
  by (simp add: gap_sub_raises re_sub_not_found)

lemma re_search_iff:
  "re_search pat p s \<longleftrightarrow> (\<exists>u t. s = u @ t \<and> pat (prev_char p u) t \<noteq> None)"
proof (induction s arbitrary: p)
  case Nil
  then show ?case by (simp add: prev_char_def)
next
  case (Cons c cs)
  show ?case
  proof
    assume "re_search pat p (c # cs)"
    then consider "pat p (c # cs) \<noteq> None" | "re_search pat (Some c) cs" by auto
    then show "\<exists>u t. c # cs = u @ t \<and> pat (prev_char p u) t \<noteq> None"
    proof cases
      case 1
      then have "c # cs = [] @ (c # cs) \<and> pat (prev_char p []) (c # cs) \<noteq> None"
        by (simp add: prev_char_def)
      then show ?thesis by blast
    next
      case 2
      then obtain u t where "cs = u @ t" "pat (prev_char (Some c) u) t \<noteq> None"
        using Cons.IH by blast
      then have "c # cs = (c # u) @ t \<and> pat (prev_char p (c # u)) t \<noteq> None"
        by (simp add: prev_char_Cons)
      then show ?thesis by blast
    qed
  next
    assume "\<exists>u t. c # cs = u @ t \<and> pat (prev_char p u) t \<noteq> None"
    then obtain u t where h: "c # cs = u @ t" "pat (prev_char p u) t \<noteq> None" by blast
    show "re_search pat p (c # cs)"
    proof (cases u)
      case Nil
      then have "pat p (c # cs) \<noteq> None" using h(2) h(1)[symmetric] by (simp add: prev_char_def)
      then show ?thesis by simp
    next
      case (Cons d u')
      then have "cs = u' @ t" "pat (prev_char (Some c) u') t \<noteq> None"
        using h by (simp_all add: prev_char_Cons)
      then show ?thesis using Cons.IH by auto
    qed
  qed
qed

lemma contains_middle: "contains l (u @ l @ v)"
  by (simp add: contains_iff_sublist)

lemma contains_mono: "contains l s \<Longrightarrow> contains l (u @ s @ v)"
  unfolding contains_iff_sublist by (metis sublist_appendI sublist_order.order.trans)

lemma tracked_spacing:
  "nm \<in> set spacing_props \<Longrightarrow> map_of SPACING_MAP d = Some tok \<Longrightarrow>
   nm @ '': '' @ d @ '','' \<in> set tracked_declarations"
proof -
  assume a: "nm \<in> set spacing_props" and b: "map_of SPACING_MAP d = Some tok"
  have "d \<in> set (map fst SPACING_MAP)" using map_of_SomeD[OF b] by force
  then show ?thesis using a unfolding tracked_declarations_def by auto
qed

lemma tracked_font_size:
  "map_of FONT_SIZE_MAP d = Some tok \<Longrightarrow> ''fontSize: '' @ d @ '','' \<in> set tracked_declarations"
proof -
  assume b: "map_of FONT_SIZE_MAP d = Some tok"
  have "d \<in> set (map fst FONT_SIZE_MAP)" using map_of_SomeD[OF b] by force
  then show ?thesis unfolding tracked_declarations_def by auto
qed

lemma tracked_literals:
  "''borderRadius: 12,'' \<in> set tracked_declarations"
  "''size'' @ replicate 24 CHR ''='' \<in> set tracked_declarations"
  "''size'' @ replicate 20 CHR ''='' \<in> set tracked_declarations"
  unfolding tracked_declarations_def by simp_all

lemma untrackedD:
  "untracked s \<Longrightarrow> l \<in> set tracked_declarations \<Longrightarrow> \<not> contains l s"
  by (simp add: untracked_def list_all_iff)

lemma spacing_sub_untracked:
  assumes "untracked s"
  shows "re_sub spacing_pattern replace_spacing p s = Inr s"
proof (rule re_sub_identity)
  fix u t gs rest
  assume s: "s = u @ t" and m: "spacing_pattern (prev_char p u) t = Some (gs, rest)"
  then obtain nm d where h: "nm \<in> set spacing_props" "digits d"
    "t = nm @ '': '' @ d @ '','' @ rest" "gs = [nm, d]"
    unfolding spacing_pattern_iff by blast
  have "map_of SPACING_MAP d = None"
  proof (cases "map_of SPACING_MAP d")
    case None
    then show ?thesis .
  next
    case (Some tok)
    have "contains (nm @ '': '' @ d @ '','') s"
      using contains_middle[of "nm @ '': '' @ d @ '',''" u rest] s h(3) by simp
    then show ?thesis using untrackedD[OF assms tracked_spacing[OF h(1) Some]] by simp
  qed
  then have "replace_spacing gs = Inr (nm @ '': '' @ d @ '','')"
    using h by (simp add: replace_spacing_two update_spacing_property_digits)
  then show "\<exists>m. m \<noteq> [] \<and> t = m @ rest \<and> replace_spacing gs = Inr m"
    using h(3) by auto
qed

lemma font_size_sub_untracked:
  assumes "untracked s"
  shows "re_sub font_size_pattern replace_font_size p s = Inr s"
proof (rule re_sub_identity)
  fix u t gs rest
  assume s: "s = u @ t" and m: "font_size_pattern (prev_char p u) t = Some (gs, rest)"
  then obtain d where h: "digits d" "t = ''fontSize: '' @ d @ '','' @ rest" "gs = [d]"
    unfolding font_size_pattern_iff by blast
  have "map_of FONT_SIZE_MAP d = None"
  proof (cases "map_of FONT_SIZE_MAP d")
    case None
    then show ?thesis .
  next
    case (Some tok)
    have "contains (''fontSize: '' @ d @ '','') s"
      using contains_middle[of "''fontSize: '' @ d @ '',''" u rest] s h(2) by simp
    then show ?thesis using untrackedD[OF assms tracked_font_size[OF Some]] by simp
  qed
  then have "replace_font_size gs = Inr (''fontSize: '' @ d @ '','')"
    using h by (simp add: replace_font_size_one update_font_size_digits)
  then show "\<exists>m. m \<noteq> [] \<and> t = m @ rest \<and> replace_font_size gs = Inr m"
    using h(2) by auto
qed

lemma literal_sub_absent:
  assumes "\<And>p t gs rest. pat p t = Some (gs, rest) \<Longrightarrow> t = l @ rest"
      and "\<not> contains l s"
  shows "re_sub pat repl p s = Inr s"
proof (rule re_sub_not_found)
  show "\<not> re_search pat p s"
  proof
    assume "re_search pat p s"
    then obtain u t where h: "s = u @ t" "pat (prev_char p u) t \<noteq> None"
      unfolding re_search_iff by blast
    then obtain gs rest where "pat (prev_char p u) t = Some (gs, rest)" by auto
    then have "t = l @ rest" by (rule assms(1))
    then have "contains l s" using h(1) contains_middle[of l u rest] by simp
    then show False using assms(2) by simp
  qed
qed

lemma untracked_identity:
  assumes "untracked s"
  shows "add_tablet_specific_styles s = Inr s"
proof -
  have g: "re_sub gap_pattern replace_spacing None s = Inr s"
    using assms by (simp add: untracked_def re_sub_not_found)
  have b: "re_sub border_radius_pattern r None s = Inr s" for r
  proof (rule literal_sub_absent[where l="''borderRadius: 12,''"])
    show "\<And>p t gs rest. border_radius_pattern p t = Some (gs, rest) \<Longrightarrow> t = (''borderRadius: 12,'') @ rest"
      by (simp add: border_radius_pattern_iff)
    show "\<not> contains (''borderRadius: 12,'') s"
      by (rule untrackedD[OF assms tracked_literals(1)])
  qed
  have i24: "re_sub (size_pattern 24) r None s = Inr s" for r
  proof (rule literal_sub_absent[where l="''size'' @ replicate 24 CHR ''=''"])
    show "\<And>p t gs rest. size_pattern 24 p t = Some (gs, rest) \<Longrightarrow> t = (''size'' @ replicate 24 CHR ''='') @ rest"
      by (simp add: size_pattern_iff)
    show "\<not> contains (''size'' @ replicate 24 CHR ''='') s"
      by (rule untrackedD[OF assms tracked_literals(2)])
  qed
  have i20: "re_sub (size_pattern 20) r None s = Inr s" for r
  proof (rule literal_sub_absent[where l="''size'' @ replicate 20 CHR ''=''"])
    show "\<And>p t gs rest. size_pattern 20 p t = Some (gs, rest) \<Longrightarrow> t = (''size'' @ replicate 20 CHR ''='') @ rest"
      by (simp add: size_pattern_iff)
    show "\<not> contains (''size'' @ replicate 20 CHR ''='') s"
      by (rule untrackedD[OF assms tracked_literals(3)])
  qed
  show ?thesis
    unfolding add_tablet_specific_styles_def
    by (simp add: bind_err_def spacing_sub_untracked[OF assms] font_size_sub_untracked[OF assms]
        g b i24 i20)
qed

lemma passesD:
  "passes r \<Longrightarrow> r k p s = Some x \<Longrightarrow> \<exists>m s' p'. s = m @ s' \<and> k p' s' = Some x"
  unfolding passes_def by (elim allE impE) assumption+

lemma passes_lit: "passes (lit l)"
  unfolding passes_def
proof (intro allI impI)
  fix k :: "'a cont" and p s x
  assume "lit l k p s = Some x"
  then obtain t where "s = l @ t" "k (prev_char p l) t = Some x"
    unfolding lit_Some_iff by (elim exE conjE)
  then show "\<exists>m s' p'. s = m @ s' \<and> k p' s' = Some x" by (intro exI conjI)
qed

lemma passes_cls: "passes (cls f)"
  unfolding passes_def
proof (intro allI impI)
  fix k :: "'a cont" and p s x
  assume "cls f k p s = Some x"
  then obtain c cs where "s = [c] @ cs" "k (Some c) cs = Some x"
    by (cases s) (auto split: if_splits)
  then show "\<exists>m s' p'. s = m @ s' \<and> k p' s' = Some x" by blast
qed

lemma star_cls_SomeD:
  "star_cls f k p s = Some x \<Longrightarrow> \<exists>m s' p'. s = m @ s' \<and> list_all f m \<and> k p' s' = Some x"
proof (induction s arbitrary: p)
  case Nil
  then show ?case by auto
next
  case (Cons c cs)
  show ?case
  proof (cases "f c \<and> star_cls f k (Some c) cs \<noteq> None")
    case True
    then have "star_cls f k (Some c) cs = Some x" using Cons.prems by auto
    then obtain m s' p' where "cs = m @ s'" "list_all f m" "k p' s' = Some x"
      using Cons.IH by blast
    then have "c # cs = (c # m) @ s' \<and> list_all f (c # m) \<and> k p' s' = Some x"
      using True by simp
    then show ?thesis by blast
  next
    case False
    then have "k p (c # cs) = Some x" using Cons.prems by (auto split: if_splits)
    then have "c # cs = [] @ (c # cs) \<and> list_all f [] \<and> k p (c # cs) = Some x" by simp
    then show ?thesis by blast
  qed
qed

lemma passes_star_cls: "passes (star_cls f)"
  unfolding passes_def
proof (intro allI impI)
  fix k :: "'a cont" and p s x
  assume "star_cls f k p s = Some x"
  from star_cls_SomeD[OF this] obtain m s' p' where "s = m @ s'" "k p' s' = Some x"
    by (elim exE conjE)
  then show "\<exists>m s' p'. s = m @ s' \<and> k p' s' = Some x" by (intro exI conjI)
qed

lemma passes_comp: "passes r1 \<Longrightarrow> passes r2 \<Longrightarrow> passes (\<lambda>k. r1 (r2 k))"
  unfolding passes_def
proof (intro allI impI)
  fix k :: "'a cont" and p s x
  assume a: "\<forall>k p s x. r1 k p s = Some x \<longrightarrow> (\<exists>m s' p'. s = m @ s' \<and> k p' s' = Some x)"
    and b: "\<forall>k p s x. r2 k p s = Some x \<longrightarrow> (\<exists>m s' p'. s = m @ s' \<and> k p' s' = Some x)"
    and c: "r1 (r2 k) p s = Some x"
  from a[rule_format, OF c] obtain m s' p' where 1: "s = m @ s'" "r2 k p' s' = Some x"
    by (elim exE conjE)
  from b[rule_format, OF 1(2)] obtain m2 s2 p2 where 2: "s' = m2 @ s2" "k p2 s2 = Some x"
    by (elim exE conjE)
  have "s = (m @ m2) @ s2" using 1 2 by simp
  then show "\<exists>m s' p'. s = m @ s' \<and> k p' s' = Some x" using 2(2) by (intro exI conjI)
qed

lemma passes_plus_cls: "passes (plus_cls f)"
proof -
  have "passes (\<lambda>k. cls f (star_cls f k))"
    by (rule passes_comp[OF passes_cls passes_star_cls])
  then show ?thesis unfolding passes_def plus_cls_def .
qed

lemma passes_star_fuel: "passes r \<Longrightarrow> passes (star_fuel fuel r)"
proof (induction fuel)
  case Nil
  show ?case unfolding passes_def
  proof (intro allI impI)
    fix k :: "'a cont" and p s x
    assume "star_fuel [] r k p s = Some x"
    then have "s = [] @ s \<and> k p s = Some x" by simp
    then show "\<exists>m s' p'. s = m @ s' \<and> k p' s' = Some x" by blast
  qed
next
  case (Cons c fuel)
  have ih: "passes (star_fuel fuel r)" using Cons by simp
  show ?case unfolding passes_def
  proof (intro allI impI)
    fix k :: "'a cont" and p s x
    assume a: "star_fuel (c # fuel) r k p s = Some x"
    show "\<exists>m s' p'. s = m @ s' \<and> k p' s' = Some x"
    proof (cases "r (star_fuel fuel r k) p s")
      case None
      then have "s = [] @ s \<and> k p s = Some x" using a by simp
      then show ?thesis by blast
    next
      case (Some y)
      then have "r (star_fuel fuel r k) p s = Some x" using a by simp
      then show ?thesis
        by (rule passesD[OF passes_comp[OF Cons.prems ih]])
    qed
  qed
qed

lemma passes_star: "passes r \<Longrightarrow> passes (star r)"
  unfolding passes_def
proof (intro allI impI)
  fix k :: "'a cont" and p s x
  assume a: "\<forall>k p s x. r k p s = Some x \<longrightarrow> (\<exists>m s' p'. s = m @ s' \<and> k p' s' = Some x)"
    and b: "star r k p s = Some x"
  have "passes r" using a unfolding passes_def .
  then have "passes (star_fuel s r)" by (rule passes_star_fuel)
  then show "\<exists>m s' p'. s = m @ s' \<and> k p' s' = Some x"
    using b unfolding star_def by (rule passesD)
qed

lemma capture_SomeD:
  assumes "passes r" "capture r K p s = Some x"
  shows "\<exists>m s' p'. s = m @ s' \<and> K m p' s' = Some x"
proof -
  from assms(2) have "r (\<lambda>p' s'. K (take (length s - length s') s) p' s') p s = Some x"
    unfolding capture_def .
  from passesD[OF assms(1) this]
  obtain m s' p' where h: "s = m @ s'" "K (take (length s - length s') s) p' s' = Some x"
    by (elim exE conjE)
  then have "take (length s - length s') s = m" by simp
  then show ?thesis using h by auto
qed

lemma word_boundary_SomeD: "word_boundary k p s = Some x \<Longrightarrow> k p s = Some x"
  by (simp add: word_boundary_def split: if_splits)

lemma stylesheet_pattern_SomeD:
  assumes "stylesheet_pattern p s = Some (gs, rest)"
  shows "\<exists>g. s = ''const styles = StyleSheet.create({'' @ g @ ''});'' @ rest \<and> gs = [g]"
proof -
  let ?body = "\<lambda>k'. lit ''{'' (plus_cls not_close_brace (lit ''}'' (plus_cls not_close_brace k')))"
  let ?grp = "\<lambda>k. plus_cls not_close_brace (star ?body k)"
  let ?K = "\<lambda>g1. lit ''});'' (accept [g1])"
  have p1: "passes (\<lambda>k. lit ''}'' (plus_cls not_close_brace k))"
    by (rule passes_comp[OF passes_lit passes_plus_cls])
  have p2: "passes (\<lambda>k. plus_cls not_close_brace (lit ''}'' (plus_cls not_close_brace k)))"
    by (rule passes_comp[OF passes_plus_cls p1])
  have pb: "passes ?body"
    by (rule passes_comp[OF passes_lit p2])
  have pg: "passes ?grp"
    by (rule passes_comp[OF passes_plus_cls passes_star[OF pb]])
  from assms have "lit ''const styles = StyleSheet.create({'' (capture ?grp ?K) p s = Some (gs, rest)"
    unfolding stylesheet_pattern_def .
  then obtain t where t: "s = ''const styles = StyleSheet.create({'' @ t"
    "capture ?grp ?K (prev_char p ''const styles = StyleSheet.create({'') t = Some (gs, rest)"
    unfolding lit_Some_iff by (elim exE conjE)
  from capture_SomeD[OF pg t(2)] obtain g s' p' where
    g: "t = g @ s'" "lit ''});'' (accept [g]) p' s' = Some (gs, rest)" by (elim exE conjE)
  from g(2) obtain t' where "s' = ''});'' @ t'" "accept [g] (prev_char p' ''});'') t' = Some (gs, rest)"
    unfolding lit_Some_iff by (elim exE conjE)
  then have "s' = ''});'' @ rest" "gs = [g]"
    by (simp_all add: accept_def)
  then show ?thesis using t(1) g(1) by simp
qed

lemma tail_pattern_SomeD:
  assumes "lit '':'' (star_cls is_space (lit num (word_boundary (accept gs)))) p s = Some (gs', rest)"
  shows "\<exists>ws. s = '':'' @ ws @ num @ rest \<and> list_all is_space ws \<and> gs' = gs"
proof -
  from assms obtain t where t: "s = '':'' @ t"
    "star_cls is_space (lit num (word_boundary (accept gs))) (prev_char p '':'') t = Some (gs', rest)"
    unfolding lit_Some_iff by (elim exE conjE)
  from star_cls_SomeD[OF t(2)] obtain ws s' p' where
    w: "t = ws @ s'" "list_all is_space ws" "lit num (word_boundary (accept gs)) p' s' = Some (gs', rest)"
    by (elim exE conjE)
  from w(3) obtain t' where t': "s' = num @ t'"
    "word_boundary (accept gs) (prev_char p' num) t' = Some (gs', rest)"
    unfolding lit_Some_iff by (elim exE conjE)
  from word_boundary_SomeD[OF t'(2)] have "gs' = gs" "t' = rest"
    by (simp_all add: accept_def)
  then show ?thesis using t(1) w(1,2) t'(1) by auto
qed

lemma font_size_pattern_v2_SomeD:
  assumes "font_size_pattern_v2 px p s = Some (gs, rest)"
  shows "\<exists>ws. s = ''fontSize:'' @ ws @ py_str px @ rest \<and> list_all is_space ws \<and> gs = []"
proof -
  from assms have "lit ''fontSize:'' (star_cls is_space (lit (py_str px) (word_boundary (accept [])))) p s
      = Some (gs, rest)"
    unfolding font_size_pattern_v2_def by (rule word_boundary_SomeD)
  then obtain t where t: "s = ''fontSize:'' @ t"
    "star_cls is_space (lit (py_str px) (word_boundary (accept []))) (prev_char p ''fontSize:'') t
       = Some (gs, rest)"
    unfolding lit_Some_iff by (elim exE conjE)
  from star_cls_SomeD[OF t(2)] obtain ws s' p' where
    w: "t = ws @ s'" "list_all is_space ws"
       "lit (py_str px) (word_boundary (accept [])) p' s' = Some (gs, rest)"
    by (elim exE conjE)
  from w(3) obtain t' where t': "s' = py_str px @ t'"
    "word_boundary (accept []) (prev_char p' (py_str px)) t' = Some (gs, rest)"
    unfolding lit_Some_iff by (elim exE conjE)
  from word_boundary_SomeD[OF t'(2)] have "gs = []" "t' = rest"
    by (simp_all add: accept_def)
  then show ?thesis using t(1) w(1,2) t'(1) by auto
qed

lemma border_radius_pattern_v2_SomeD:
  assumes "border_radius_pattern_v2 px p s = Some (gs, rest)"
  shows "\<exists>ws. s = ''borderRadius:'' @ ws @ py_str px @ rest \<and> list_all is_space ws \<and> gs = []"
proof -
  from assms have "lit ''borderRadius:'' (star_cls is_space (lit (py_str px) (word_boundary (accept [])))) p s
      = Some (gs, rest)"
    unfolding border_radius_pattern_v2_def by (rule word_boundary_SomeD)
  then obtain t where t: "s = ''borderRadius:'' @ t"
    "star_cls is_space (lit (py_str px) (word_boundary (accept []))) (prev_char p ''borderRadius:'') t
       = Some (gs, rest)"
    unfolding lit_Some_iff by (elim exE conjE)
  from star_cls_SomeD[OF t(2)] obtain ws s' p' where
    w: "t = ws @ s'" "list_all is_space ws"
       "lit (py_str px) (word_boundary (accept [])) p' s' = Some (gs, rest)"
    by (elim exE conjE)
  from w(3) obtain t' where t': "s' = py_str px @ t'"
    "word_boundary (accept []) (prev_char p' (py_str px)) t' = Some (gs, rest)"
    unfolding lit_Some_iff by (elim exE conjE)
  from word_boundary_SomeD[OF t'(2)] have "gs = []" "t' = rest"
    by (simp_all add: accept_def)
  then show ?thesis using t(1) w(1,2) t'(1) by auto
qed

lemma spacing_pattern_v2_SomeD:
  assumes "spacing_pattern_v2 px p s = Some (gs, rest)"
  shows "\<exists>nm ws. nm \<in> set spacing_props_v2 \<and> s = nm @ '':'' @ ws @ py_str px @ rest \<and>
           list_all is_space ws \<and> gs = [nm]"
proof -
  let ?K = "\<lambda>g1. lit '':'' (star_cls is_space (lit (py_str px) (word_boundary (accept [g1]))))"
  let ?k = "\<lambda>p' s'. ?K (take (length s - length s') s) p' s'"
  from assms have "capture (alt (map lit spacing_props_v2)) ?K p s = Some (gs, rest)"
    unfolding spacing_pattern_v2_def by (rule word_boundary_SomeD)
  then have "alt (map lit spacing_props_v2) ?k p s = Some (gs, rest)"
    unfolding capture_def .
  from alt_lits_SomeD[OF this] obtain nm where nm: "nm \<in> set spacing_props_v2"
    "lit nm ?k p s = Some (gs, rest)" by (elim bexE)
  from lit_SomeD[OF nm(2)] obtain t where t: "s = nm @ t" "?k (prev_char p nm) t = Some (gs, rest)"
    by (elim exE conjE)
  have "take (length s - length t) s = nm" using t(1) by simp
  then have "?K nm (prev_char p nm) t = Some (gs, rest)" using t(2) by simp
  from tail_pattern_SomeD[OF this] obtain ws where
    "t = '':'' @ ws @ py_str px @ rest" "list_all is_space ws" "gs = [nm]"
    by (elim exE conjE)
  then show ?thesis using nm(1) t(1) by auto
qed

lemma re_sub_total:
  assumes "\<And>p t gs rest. pat p t = Some (gs, rest) \<Longrightarrow> \<exists>r. repl gs = Inr r"
  shows "\<exists>out. re_sub pat repl p s = Inr out"
proof (induction "length s" arbitrary: s p rule: less_induct)
  case less
  show ?case
  proof (cases "case pat p s of Some (gs, rest) \<Rightarrow> if length rest < length s then Some (gs, rest) else None
                 | None \<Rightarrow> None")
    case None
    show ?thesis
    proof (cases s)
      case Nil
      then show ?thesis by simp
    next
      case (Cons c cs)
      then obtain out where "re_sub pat repl (Some c) cs = Inr out"
        using less[of cs "Some c"] by auto
      then show ?thesis using None Cons by (subst re_sub.simps) simp
    qed
  next
    case (Some y)
    obtain gs rest where y: "y = (gs, rest)" by (cases y)
    have m: "pat p s = Some (gs, rest)" "length rest < length s"
      using Some y by (auto split: option.splits if_splits)
    obtain r where r: "repl gs = Inr r" using assms[OF m(1)] by blast
    obtain out where "re_sub pat repl (Some (s ! (length s - length rest - 1))) rest = Inr out"
      using less[OF m(2)] by blast
    then show ?thesis using Some y r by (subst re_sub.simps) simp
  qed
qed

lemma sub_each_total:
  assumes "\<And>px responsive p t gs rest. pat px p t = Some (gs, rest) \<Longrightarrow> \<exists>r. repl responsive gs = Inr r"
  shows "\<exists>out. sub_each items pat repl s = Inr out"
proof (induction items arbitrary: s)
  case Nil
  then show ?case by simp
next
  case (Cons a items)
  obtain px responsive where a: "a = (px, responsive)" by (cases a)
  obtain s1 where "re_sub (pat px) (repl responsive) None s = Inr s1"
    using re_sub_total[of "pat px" "repl responsive" None s] assms by blast
  then show ?case using Cons[of s1] a by (simp add: bind_err_def)
qed

lemma spacing_template_ok:
  "spacing_pattern_v2 px p t = Some (gs, rest) \<Longrightarrow> \<exists>r. spacing_template responsive gs = Inr r"
  by (drule spacing_pattern_v2_SomeD) (auto simp: spacing_template_def group_def bind_err_def)

lemma re_sub_template_total: "\<exists>out. re_sub pat (template r) p s = Inr out"
  by (rule re_sub_total) (simp add: template_def)

lemma corner_radius_rule_v2_total: "\<exists>out. corner_radius_rule_v2 s = Inr out"
proof -
  obtain s1 where 1: "re_sub (border_radius_pattern_v2 12)
      (template ''borderRadius: deviceInfo.isTablet ? 14 : 12'') None s = Inr s1"
    using re_sub_template_total by blast
  obtain s2 where "re_sub (border_radius_pattern_v2 10)
      (template ''borderRadius: deviceInfo.isTablet ? 12 : 10'') None s1 = Inr s2"
    using re_sub_template_total by blast
  then show ?thesis using 1 by (simp add: corner_radius_rule_v2_def bind_err_def)
qed

lemma process_stylesheet_total:
  "\<exists>g'. process_stylesheet [g] =
     Inr (''const styles = StyleSheet.create({'' @ g' @ ''});'')"
proof -
  obtain s1 where 1: "sub_each SPACING_MAP_v2 spacing_pattern_v2 spacing_template g = Inr s1"
    using sub_each_total[of spacing_pattern_v2 spacing_template SPACING_MAP_v2 g]
      spacing_template_ok by blast
  obtain s2 where 2: "sub_each FONT_SIZE_MAP_v2 font_size_pattern_v2 font_size_template s1 = Inr s2"
    using sub_each_total[of font_size_pattern_v2 font_size_template FONT_SIZE_MAP_v2 s1]
    by (auto simp: font_size_template_def)
  obtain s3 where 3: "corner_radius_rule_v2 s2 = Inr s3"
    using corner_radius_rule_v2_total by blast
  show ?thesis using 1 2 3 by (simp add: process_stylesheet_def group_def bind_err_def)
qed

lemma sub_each_not_found:
  assumes "\<And>px responsive. (px, responsive) \<in> set items \<Longrightarrow> \<not> re_search (pat px) None s"
  shows "sub_each items pat repl s = Inr s"
  using assms
proof (induction items)
  case Nil
  then show ?case by simp
next
  case (Cons a items)
  obtain px responsive where a: "a = (px, responsive)" by (cases a)
  have "re_sub (pat px) (repl responsive) None s = Inr s"
    using Cons.prems[of px responsive] a by (simp add: re_sub_not_found)
  moreover have "sub_each items pat repl s = Inr s"
    using Cons by auto
  ultimately show ?case using a by (simp add: bind_err_def)
qed

lemma not_found_without_number:
  assumes "\<And>p t gs rest. pat p t = Some (gs, rest) \<Longrightarrow> \<exists>a b. t = a @ num @ b"
      and "\<not> contains num s"
    shows "\<not> re_search pat p s"
proof
  assume "re_search pat p s"
  then obtain u t where h: "s = u @ t" "pat (prev_char p u) t \<noteq> None"
    unfolding re_search_iff by blast
  then obtain gs rest where "pat (prev_char p u) t = Some (gs, rest)" by auto
  from assms(1)[OF this] obtain a b where "t = a @ num @ b" by blast
  then have "s = (u @ a) @ num @ b" using h(1) by simp
  then have "contains num s" using contains_middle[of num "u @ a" b] by simp
  then show False using assms(2) by simp
qed

lemma spacing_v2_has_number:
  "spacing_pattern_v2 px p t = Some (gs, rest) \<Longrightarrow> \<exists>a b. t = a @ py_str px @ b"
proof -
  assume "spacing_pattern_v2 px p t = Some (gs, rest)"
  from spacing_pattern_v2_SomeD[OF this] obtain nm ws where
    "t = nm @ '':'' @ ws @ py_str px @ rest" by blast
  then have "t = (nm @ '':'' @ ws) @ py_str px @ rest" by simp
  then show ?thesis by blast
qed

lemma font_size_v2_has_number:
  "font_size_pattern_v2 px p t = Some (gs, rest) \<Longrightarrow> \<exists>a b. t = a @ py_str px @ b"
proof -
  assume "font_size_pattern_v2 px p t = Some (gs, rest)"
  from font_size_pattern_v2_SomeD[OF this] obtain ws where
    "t = ''fontSize:'' @ ws @ py_str px @ rest" by blast
  then have "t = (''fontSize:'' @ ws) @ py_str px @ rest" by simp
  then show ?thesis by blast
qed

lemma border_radius_v2_has_number:
  "border_radius_pattern_v2 px p t = Some (gs, rest) \<Longrightarrow> \<exists>a b. t = a @ py_str px @ b"
proof -
  assume "border_radius_pattern_v2 px p t = Some (gs, rest)"
  from border_radius_pattern_v2_SomeD[OF this] obtain ws where
    "t = ''borderRadius:'' @ ws @ py_str px @ rest" by blast
  then have "t = (''borderRadius:'' @ ws) @ py_str px @ rest" by simp
  then show ?thesis by blast
qed

lemma process_stylesheet_untracked:
  assumes "list_all (\<lambda>px. \<not> contains (py_str px) g) tracked_numbers_v2"
  shows "process_stylesheet [g] = Inr (''const styles = StyleSheet.create({'' @ g @ ''});'')"
proof -
  have n: "\<not> contains (py_str px) g" if "px \<in> set tracked_numbers_v2" for px
    using assms that by (simp add: list_all_iff)
  have 1: "sub_each SPACING_MAP_v2 spacing_pattern_v2 spacing_template g = Inr g"
  proof (rule sub_each_not_found)
    fix px responsive assume "(px, responsive) \<in> set SPACING_MAP_v2"
    then have "px \<in> set tracked_numbers_v2" unfolding tracked_numbers_v2_def by force
    then show "\<not> re_search (spacing_pattern_v2 px) None g"
      using not_found_without_number[of "spacing_pattern_v2 px" "py_str px" g None]
        spacing_v2_has_number n by blast
  qed
  have 2: "sub_each FONT_SIZE_MAP_v2 font_size_pattern_v2 font_size_template g = Inr g"
  proof (rule sub_each_not_found)
    fix px responsive assume "(px, responsive) \<in> set FONT_SIZE_MAP_v2"
    then have "px \<in> set tracked_numbers_v2" unfolding tracked_numbers_v2_def by force
    then show "\<not> re_search (font_size_pattern_v2 px) None g"
      using not_found_without_number[of "font_size_pattern_v2 px" "py_str px" g None]
        font_size_v2_has_number n by blast
  qed
  have b: "\<not> re_search (border_radius_pattern_v2 px) None g" if "px = 12 \<or> px = 10" for px
  proof -
    have "px \<in> set tracked_numbers_v2" using that unfolding tracked_numbers_v2_def by auto
    then show ?thesis
      using not_found_without_number[of "border_radius_pattern_v2 px" "py_str px" g None]
        border_radius_v2_has_number n by blast
  qed
  have 3: "corner_radius_rule_v2 g = Inr g"
    using b[of 12] b[of 10] by (simp add: corner_radius_rule_v2_def bind_err_def re_sub_not_found)
  show ?thesis using 1 2 3 by (simp add: process_stylesheet_def group_def bind_err_def)
qed

lemma untracked_v2_identity:
  assumes "untracked_v2 s"
  shows "update_styles_in_stylesheet s = (s, [])" "update_icon_sizes s = Inr s"
proof -
  have n: "list_all (\<lambda>px. \<not> contains (py_str px) s) tracked_numbers_v2"
    using assms by (simp add: untracked_v2_def)
  have "re_sub stylesheet_pattern process_stylesheet None s = Inr s"
  proof (rule re_sub_identity)
    fix u t gs rest
    assume s: "s = u @ t" and m: "stylesheet_pattern (prev_char None u) t = Some (gs, rest)"
    from stylesheet_pattern_SomeD[OF m] obtain g where
      g: "t = ''const styles = StyleSheet.create({'' @ g @ ''});'' @ rest" "gs = [g]" by blast
    have "s = (u @ ''const styles = StyleSheet.create({'') @ g @ (''});'' @ rest)"
      using s g(1) by simp
    then have "list_all (\<lambda>px. \<not> contains (py_str px) g) tracked_numbers_v2"
      using n contains_mono[of _ g "u @ ''const styles = StyleSheet.create({''" "''});'' @ rest"]
      by (auto simp: list_all_iff)
    then have "process_stylesheet gs =
        Inr (''const styles = StyleSheet.create({'' @ g @ ''});'')"
      using g(2) by (simp add: process_stylesheet_untracked)
    then show "\<exists>m. m \<noteq> [] \<and> t = m @ rest \<and> process_stylesheet gs = Inr m"
      using g(1) by auto
  qed
  then show "update_styles_in_stylesheet s = (s, [])"
    by (simp add: update_styles_in_stylesheet_def)
  show "update_icon_sizes s = Inr s"
    using assms by (simp add: untracked_v2_def update_icon_sizes_def bind_err_def re_sub_not_found)
qed

lemma unaffected_head_None:
  "unaffected pat p u w \<Longrightarrow> u \<noteq> [] \<Longrightarrow> pat p u = None \<Longrightarrow> pat p (u @ w) = None"
  unfolding unaffected_def
  by (drule spec[of _ "[]"], drule spec[of _ u]) (simp add: prev_char_def)

lemma unaffected_head_Some:
  "unaffected pat p u w \<Longrightarrow> u \<noteq> [] \<Longrightarrow> pat p u = Some (gs, rest) \<Longrightarrow>
     (\<exists>m. m \<noteq> [] \<and> u = m @ rest) \<and> pat p (u @ w) = Some (gs, rest @ w)"
  unfolding unaffected_def
  by (drule spec[of _ "[]"], drule spec[of _ u]) (simp add: prev_char_def)

lemma unaffected_tail:
  assumes "unaffected pat p (m @ rest) w" "m \<noteq> []"
  shows "unaffected pat (Some (last m)) rest w"
  unfolding unaffected_def
proof (intro allI impI)
  fix u1 u2 assume a: "rest = u1 @ u2 \<and> u2 \<noteq> []"
  have q: "prev_char p (m @ u1) = prev_char (Some (last m)) u1"
    using assms(2) by (simp add: prev_char_def)
  from a have "m @ rest = (m @ u1) @ u2 \<and> u2 \<noteq> []" by simp
  with assms(1) show "(pat (prev_char (Some (last m)) u1) u2 = None \<longrightarrow>
         pat (prev_char (Some (last m)) u1) (u2 @ w) = None) \<and>
        (\<forall>gs rest. pat (prev_char (Some (last m)) u1) u2 = Some (gs, rest) \<longrightarrow>
            (\<exists>m. m \<noteq> [] \<and> u2 = m @ rest) \<and>
            pat (prev_char (Some (last m)) u1) (u2 @ w) = Some (gs, rest @ w))"
    unfolding unaffected_def q[symmetric] by (elim allE[of _ "m @ u1"] allE[of _ u2]) simp
qed

lemma re_sub_split:
  assumes loc: "unaffected pat p u (m @ v)"
      and hit: "pat (prev_char p u) (m @ v) = Some (gs, v)" "m \<noteq> []"
  shows "re_sub pat repl p (u @ m @ v) =
     (case re_sub pat repl p u of
        Inl e \<Rightarrow> Inl e
      | Inr u' \<Rightarrow>
         (case repl gs of
            Inl e \<Rightarrow> Inl e
          | Inr r \<Rightarrow>
             (case re_sub pat repl (Some (last m)) v of
                Inl e \<Rightarrow> Inl e
              | Inr v' \<Rightarrow> Inr (u' @ r @ v'))))"
  using loc hit(1)
proof (induction "length u" arbitrary: u p rule: less_induct)
  case less
  show ?case
  proof (cases u)
    case Nil
    then have "pat p (m @ v) = Some (gs, v)" using less.prems(2) by (simp add: prev_char_def)
    then show ?thesis
      using Nil re_sub_match[of pat p m v gs repl] hit(2)
      by (simp split: sum.splits)
  next
    case (Cons c cs)
    then have ne: "u \<noteq> []" by simp
    show ?thesis
    proof (cases "pat p u")
      case None
      then have n: "pat p (c # (cs @ m @ v)) = None"
        using unaffected_head_None[OF less.prems(1) ne] Cons by simp
      have ua: "unaffected pat (Some (last [c])) cs (m @ v)"
        by (rule unaffected_tail) (use less.prems(1) Cons in simp_all)
      have ih: "re_sub pat repl (Some c) (cs @ m @ v) =
         (case re_sub pat repl (Some c) cs of
            Inl e \<Rightarrow> Inl e
          | Inr u' \<Rightarrow>
             (case repl gs of
                Inl e \<Rightarrow> Inl e
              | Inr r \<Rightarrow>
                 (case re_sub pat repl (Some (last m)) v of
                    Inl e \<Rightarrow> Inl e
                  | Inr v' \<Rightarrow> Inr (u' @ r @ v'))))"
      proof (rule less.hyps)
        show "length cs < length u" using Cons by simp
      next
        show "unaffected pat (Some c) cs (m @ v)" using ua by simp
      next
        show "pat (prev_char (Some c) cs) (m @ v) = Some (gs, v)"
        proof -
          have "prev_char (Some c) cs = prev_char p u"
            using Cons by (cases "cs = []") (simp_all add: prev_char_def)
          then show ?thesis using less.prems(2) by simp
        qed
      qed
      have "pat p (c # cs) = None" using None Cons by simp
      then have 1: "re_sub pat repl p u =
          (case re_sub pat repl (Some c) cs of Inl e \<Rightarrow> Inl e | Inr out \<Rightarrow> Inr (c # out))"
        using Cons by (simp add: re_sub_no_match)
      have 2: "re_sub pat repl p (u @ m @ v) =
          (case re_sub pat repl (Some c) (cs @ m @ v) of Inl e \<Rightarrow> Inl e | Inr out \<Rightarrow> Inr (c # out))"
        using n Cons by (simp add: re_sub_no_match)
      show ?thesis unfolding 1 2 ih by (simp split: sum.splits)
    next
      case (Some y)
      obtain gs' rest where y: "y = (gs', rest)" by (cases y)
      from unaffected_head_Some[OF less.prems(1) ne, of gs' rest] Some y
      obtain m' where m': "m' \<noteq> []" "u = m' @ rest"
        and big: "pat p (u @ m @ v) = Some (gs', rest @ m @ v)" by auto
      have ua: "unaffected pat (Some (last m')) rest (m @ v)"
        by (rule unaffected_tail) (use less.prems(1) m' in simp_all)
      have ih: "re_sub pat repl (Some (last m')) (rest @ m @ v) =
         (case re_sub pat repl (Some (last m')) rest of
            Inl e \<Rightarrow> Inl e
          | Inr u' \<Rightarrow>
             (case repl gs of
                Inl e \<Rightarrow> Inl e
              | Inr r \<Rightarrow>
                 (case re_sub pat repl (Some (last m)) v of
                    Inl e \<Rightarrow> Inl e
                  | Inr v' \<Rightarrow> Inr (u' @ r @ v'))))"
      proof (rule less.hyps)
        show "length rest < length u" using m' by simp
      next
        show "unaffected pat (Some (last m')) rest (m @ v)" by (rule ua)
      next
        show "pat (prev_char (Some (last m')) rest) (m @ v) = Some (gs, v)"
        proof -
          have "prev_char (Some (last m')) rest = prev_char p u"
            using m' by (cases "rest = []") (simp_all add: prev_char_def)
          then show ?thesis using less.prems(2) by simp
        qed
      qed
      have 1: "re_sub pat repl p u =
          (case repl gs' of Inl e \<Rightarrow> Inl e
           | Inr r \<Rightarrow> (case re_sub pat repl (Some (last m')) rest of
                         Inl e \<Rightarrow> Inl e | Inr out \<Rightarrow> Inr (r @ out)))"
        using re_sub_match[of pat p m' rest gs' repl] Some y m' by simp
      have "pat p (m' @ (rest @ m @ v)) = Some (gs', rest @ m @ v)" using big m' by simp
      then have 2: "re_sub pat repl p (u @ m @ v) =
          (case repl gs' of Inl e \<Rightarrow> Inl e
           | Inr r \<Rightarrow> (case re_sub pat repl (Some (last m')) (rest @ m @ v) of
                         Inl e \<Rightarrow> Inl e | Inr out \<Rightarrow> Inr (r @ out)))"
        using re_sub_match[of pat p m' "rest @ m @ v" gs' repl] m' by simp
      show ?thesis unfolding 1 2 ih by (simp split: sum.splits)
    qed
  qed
qed

section \<open>\<^verbatim>\<open>process_file\<close> and \<^verbatim>\<open>main\<close>\<close>

lemma write_text_fields:
  "stdout (snd (write_text f c w)) = stdout w"
  "read_calls (snd (write_text f c w)) = read_calls w"
  "rewriter_calls (snd (write_text f c w)) = rewriter_calls w"
  "write_calls (snd (write_text f c w)) = write_calls w @ [(f, c)]"
  "write_error (snd (write_text f c w)) = write_error w"
  by (simp_all add: write_text_def Let_def split: option.splits write_failure.splits)

lemma write_text_result:
  "fst (write_text f c w) =
     (case write_error w f of None \<Rightarrow> Inr () | Some fl \<Rightarrow> Inl (failure_error fl))"
  "read_result (snd (write_text f c w)) =
     (case write_error w f of
        None \<Rightarrow> (read_result w)(f := Inr c)
      | Some (OpenFails e) \<Rightarrow> read_result w
      | Some (WriteFails e n) \<Rightarrow> (read_result w)(f := Inr (take n c)))"
  by (simp_all add: write_text_def failure_error_def Let_def
      split: option.splits write_failure.splits)

lemma process_file_try_cases:
  "process_file_try f w =
     (case read_result w f of
        Inl e \<Rightarrow> (Inl e, snd (read_text f w))
      | Inr content \<Rightarrow>
          if \<not> contains ''StyleSheet.create'' content then (Inr False, snd (read_text f w))
          else if 5 < py_count ''deviceInfo.isTablet'' content
          then (Inr False, print (''  Skipping '' @ f @ '' (already optimized)'')
                             (snd (read_text f w)))
          else (case add_tablet_specific_styles content of
                  Inl e \<Rightarrow> (Inl e, call_rewriter content (snd (read_text f w)))
                | Inr content' \<Rightarrow>
                    if content' = content
                    then (Inr False, call_rewriter content (snd (read_text f w)))
                    else (case write_error w f of
                            Some fl \<Rightarrow> Inl (failure_error fl)
                          | None \<Rightarrow> Inr True,
                          snd (write_text f content'
                                 (call_rewriter content (snd (read_text f w)))))))"
  by (simp add: process_file_try_def read_text_def write_text_def call_rewriter_def
      failure_error_def Let_def
      split: sum.splits option.splits write_failure.splits)

lemma process_file_try_v2_cases:
  "process_file_try_v2 f w =
     (case read_result w f of
        Inl e \<Rightarrow> (Inl e, snd (read_text f w))
      | Inr content \<Rightarrow>
          if \<not> contains ''StyleSheet.create'' content then (Inr False, snd (read_text f w))
          else if 10 < py_count ''deviceInfo.isTablet'' content
          then (Inr False, snd (read_text f w))
          else
            (let w1 = (call_rewriter content (snd (read_text f w)))
                        \<lparr>stdout := stdout w @ snd (update_styles_in_stylesheet content)\<rparr>
             in case update_icon_sizes (fst (update_styles_in_stylesheet content)) of
                  Inl e \<Rightarrow> (Inl e, w1)
                | Inr content' \<Rightarrow>
                    if content' = content then (Inr False, w1)
                    else (case write_error w f of
                            Some fl \<Rightarrow> Inl (failure_error fl)
                          | None \<Rightarrow> Inr True,
                          snd (write_text f content' w1))))"
  by (simp add: process_file_try_v2_def read_text_def write_text_def call_rewriter_def
      failure_error_def Let_def
      split: sum.splits option.splits prod.splits write_failure.splits)

lemma world_fields:
  "stdout (snd (read_text f w)) = stdout w"
  "read_calls (snd (read_text f w)) = read_calls w @ [f]"
  "rewriter_calls (snd (read_text f w)) = rewriter_calls w"
  "write_calls (snd (read_text f w)) = write_calls w"
  "read_result (snd (read_text f w)) = read_result w"
  "write_error (snd (read_text f w)) = write_error w"
  "stdout (call_rewriter c w) = stdout w"
  "read_calls (call_rewriter c w) = read_calls w"
  "rewriter_calls (call_rewriter c w) = rewriter_calls w @ [c]"
  "write_calls (call_rewriter c w) = write_calls w"
  "read_result (call_rewriter c w) = read_result w"
  "write_error (call_rewriter c w) = write_error w"
  "stdout (print l w) = stdout w @ [l]"
  "read_calls (print l w) = read_calls w"
  "rewriter_calls (print l w) = rewriter_calls w"
  "write_calls (print l w) = write_calls w"
  "read_result (print l w) = read_result w"
  "write_error (print l w) = write_error w"
  by (simp_all add: read_text_def call_rewriter_def print_def)

text \<open>
  Claim C6. For a file that can be read, \<^verbatim>\<open>process_file\<close> leaves the rewriter uncalled in
  exactly two cases: the content does not contain \<^verbatim>\<open>StyleSheet.create\<close>, or it contains
  \<^verbatim>\<open>deviceInfo.isTablet\<close> more than 5 times (update-styles.py) or more than 10 times
  (update-styles-v2.py). In both cases it returns false and no file is written: no file
  is opened for writing and every stored text is as it was.
\<close>

theorem skipped_exactly_when_unmarked_or_converted:
  "read_result w f = Inr content \<longrightarrow>
     ((rewriter_calls (snd (process_file f w)) = rewriter_calls w) =
        (\<not> contains ''StyleSheet.create'' content \<or>
         5 < py_count ''deviceInfo.isTablet'' content)) \<and>
     (\<not> contains ''StyleSheet.create'' content \<or>
      5 < py_count ''deviceInfo.isTablet'' content \<longrightarrow>
        \<not> fst (process_file f w) \<and>
        read_result (snd (process_file f w)) = read_result w \<and>
        write_calls (snd (process_file f w)) = write_calls w) \<and>
     ((rewriter_calls (snd (process_file_v2 f w)) = rewriter_calls w) =
        (\<not> contains ''StyleSheet.create'' content \<or>
         10 < py_count ''deviceInfo.isTablet'' content)) \<and>
     (\<not> contains ''StyleSheet.create'' content \<or>
      10 < py_count ''deviceInfo.isTablet'' content \<longrightarrow>
        \<not> fst (process_file_v2 f w) \<and>
        read_result (snd (process_file_v2 f w)) = read_result w \<and>
        write_calls (snd (process_file_v2 f w)) = write_calls w)"
  by (auto simp: process_file_def process_file_v2_def process_file_try_cases
      process_file_try_v2_cases world_fields write_text_fields Let_def
      split: sum.splits option.splits)











lemma process_file_writes_iff_changed:
  assumes "read_result w f = Inr content" "contains ''StyleSheet.create'' content"
    "py_count ''deviceInfo.isTablet'' content \<le> 5"
    "add_tablet_specific_styles content = Inr content'"
  shows "write_calls (snd (process_file f w)) =
           (if content' \<noteq> content then write_calls w @ [(f, content')] else write_calls w)"
    and "write_error w f = None \<Longrightarrow> fst (process_file f w) = (content' \<noteq> content)"
    and "write_error w f = None \<Longrightarrow> read_result (snd (process_file f w)) =
           (if content' \<noteq> content then (read_result w)(f := Inr content') else read_result w)"
  using assms
  by (auto simp: process_file_def process_file_try_cases world_fields write_text_fields
      write_text_result split: option.splits)

lemma process_file_v2_writes_iff_changed:
  assumes "read_result w f = Inr content" "contains ''StyleSheet.create'' content"
    "py_count ''deviceInfo.isTablet'' content \<le> 10"
    "update_icon_sizes (fst (update_styles_in_stylesheet content)) = Inr content'"
  shows "write_calls (snd (process_file_v2 f w)) =
           (if content' \<noteq> content then write_calls w @ [(f, content')] else write_calls w)"
    and "write_error w f = None \<Longrightarrow> fst (process_file_v2 f w) = (content' \<noteq> content)"
    and "write_error w f = None \<Longrightarrow> read_result (snd (process_file_v2 f w)) =
           (if content' \<noteq> content then (read_result w)(f := Inr content') else read_result w)"
  using assms
  by (auto simp: process_file_v2_def process_file_try_v2_cases world_fields
      write_text_fields write_text_result Let_def split: option.splits)

lemma process_file_no_write_on_error:
  assumes "read_result w f = Inr content" "add_tablet_specific_styles content = Inl e"
  shows "\<not> fst (process_file f w)" "write_calls (snd (process_file f w)) = write_calls w"
    "read_result (snd (process_file f w)) = read_result w"
  using assms
  by (auto simp: process_file_def process_file_try_cases world_fields)

section \<open>The scenario of the three declarations\<close>











section \<open>The gates and the failures on concrete files\<close>

lemma plain_file_gate: "\<not> contains ''StyleSheet.create'' plain_file"
  unfolding plain_file_def by code_simp

lemma converted_file_gate:
  "contains ''StyleSheet.create'' converted_file"
  "py_count ''deviceInfo.isTablet'' converted_file = 6"
  unfolding converted_file_def by code_simp+

theorem skipped_exactly_when_unmarked_or_converted_witness:
  "read_result (world_with plain_file) ''App.tsx'' = Inr plain_file \<and>
   \<not> contains ''StyleSheet.create'' plain_file \<and>
   rewriter_calls (snd (process_file ''App.tsx'' (world_with plain_file))) = [] \<and>
   \<not> fst (process_file ''App.tsx'' (world_with plain_file)) \<and>
   write_calls (snd (process_file ''App.tsx'' (world_with plain_file))) = [] \<and>
   rewriter_calls (snd (process_file_v2 ''App.tsx'' (world_with plain_file))) = [] \<and>
   \<not> fst (process_file_v2 ''App.tsx'' (world_with plain_file)) \<and>
   write_calls (snd (process_file_v2 ''App.tsx'' (world_with plain_file))) = [] \<and>
   5 < py_count ''deviceInfo.isTablet'' converted_file \<and>
   rewriter_calls (snd (process_file ''App.tsx'' (world_with converted_file))) = [] \<and>
   \<not> fst (process_file ''App.tsx'' (world_with converted_file)) \<and>
   write_calls (snd (process_file ''App.tsx'' (world_with converted_file))) = [] \<and>
   rewriter_calls (snd (process_file_v2 ''App.tsx'' (world_with converted_file))) \<noteq> []"
  using skipped_exactly_when_unmarked_or_converted
          [of "world_with plain_file" "''App.tsx''" plain_file]
        skipped_exactly_when_unmarked_or_converted
          [of "world_with converted_file" "''App.tsx''" converted_file]
        plain_file_gate converted_file_gate
  by (simp add: world_with_def)

lemma gap_file_v1: "add_tablet_specific_styles gap_file = Inl (IndexError ''no such group'')"
  unfolding gap_file_def by code_simp

lemma gap_file_gate:
  "contains ''StyleSheet.create'' gap_file" "py_count ''deviceInfo.isTablet'' gap_file = 0"
  unfolding gap_file_def by code_simp+

lemma gap_file_rewritten_v2: "update_styles_in_stylesheet gap_file = (gap_file_v2, [])"
  unfolding gap_file_def gap_file_v2_def by code_simp










section \<open>The \<^verbatim>\<open>gap\<close> rule of update-styles.py\<close>

lemma gap_file_process:
  "process_file ''Row.tsx'' (world_with gap_file) =
     (False, print ''  Error processing Row.tsx: no such group''
               (call_rewriter gap_file (snd (read_text ''Row.tsx'' (world_with gap_file)))))"
  by (simp add: process_file_def process_file_try_cases gap_file_v1 gap_file_gate
      world_with_def error_text_def)

text \<open>
  Claim C4 fails on update-styles.py for the \<^verbatim>\<open>gap\<close> property. The pattern
  \<^verbatim>\<open>gap: (\d+),\<close> has one group and its replacement function \<^verbatim>\<open>replace_spacing\<close> reads
  group 2: the substitution never replaces anything, it either raises \<^verbatim>\<open>IndexError\<close> or
  finds no declaration. On \<open>gap_file\<close> the rewriter raises, \<^verbatim>\<open>process_file\<close> returns false
  and the file keeps \<^verbatim>\<open>gap: 8,\<close> and \<^verbatim>\<open>padding: 16,\<close>; update-styles-v2.py rewrites both.
\<close>

theorem gap_rule_raises:
  "re_sub gap_pattern replace_spacing p s =
     (if re_search gap_pattern p s then Inl (IndexError ''no such group'') else Inr s) \<and>
   add_tablet_specific_styles gap_file = Inl (IndexError ''no such group'') \<and>
   process_file ''Row.tsx'' (world_with gap_file) =
     (False, print ''  Error processing Row.tsx: no such group''
               (call_rewriter gap_file (snd (read_text ''Row.tsx'' (world_with gap_file))))) \<and>
   read_result (snd (process_file ''Row.tsx'' (world_with gap_file))) ''Row.tsx'' = Inr gap_file \<and>
   write_calls (snd (process_file ''Row.tsx'' (world_with gap_file))) = [] \<and>
   fst (update_styles_in_stylesheet gap_file) = gap_file_v2"
  by (simp add: gap_sub_cases gap_file_v1 gap_file_process gap_file_rewritten_v2 world_fields)
     (simp add: world_with_def)

section \<open>A file without tracked literals\<close>

lemma gap5_file_v1: "add_tablet_specific_styles gap5_file = Inl (IndexError ''no such group'')"
  unfolding gap5_file_def by code_simp

lemma gap5_file_gate:
  "contains ''StyleSheet.create'' gap5_file" "py_count ''deviceInfo.isTablet'' gap5_file = 0"
  unfolding gap5_file_def by code_simp+

lemma gap5_file_v2: "update_styles_in_stylesheet gap5_file = (gap5_file, [])"
  unfolding gap5_file_def by code_simp

lemma gap5_file_icons: "update_icon_sizes gap5_file = Inr gap5_file"
  unfolding gap5_file_def by code_simp

lemma gap5_file_untracked:
  "list_all (\<lambda>l. \<not> contains l gap5_file) tracked_declarations"
  "map_of SPACING_MAP ''5'' = None" "map_of SPACING_MAP ''1'' = None"
  unfolding gap5_file_def by code_simp+

text \<open>
  Claim C8 fails on update-styles.py for a file with a \<^verbatim>\<open>gap\<close> declaration. \<open>gap5_file\<close>
  holds none of the declarations that a rule rewrites and its literals 1 and 5 are keys
  of no table, so the claim has the transformation return the content itself. The \<^verbatim>\<open>gap\<close>
  rule raises \<^verbatim>\<open>IndexError\<close> instead: \<^verbatim>\<open>process_file\<close> prints the error and returns false,
  without opening the file for writing. update-styles-v2.py returns the content unchanged
  and prints nothing.
\<close>

theorem gap_declaration_is_not_left_alone:
  "list_all (\<lambda>l. \<not> contains l gap5_file) tracked_declarations \<and>
   map_of SPACING_MAP ''5'' = None \<and> map_of SPACING_MAP ''1'' = None \<and>
   add_tablet_specific_styles gap5_file = Inl (IndexError ''no such group'') \<and>
   process_file ''Row.tsx'' (world_with gap5_file) =
     (False, print ''  Error processing Row.tsx: no such group''
               (call_rewriter gap5_file (snd (read_text ''Row.tsx'' (world_with gap5_file))))) \<and>
   write_calls (snd (process_file ''Row.tsx'' (world_with gap5_file))) = [] \<and>
   read_result (snd (process_file ''Row.tsx'' (world_with gap5_file))) ''Row.tsx''
     = Inr gap5_file \<and>
   update_styles_in_stylesheet gap5_file = (gap5_file, []) \<and>
   update_icon_sizes gap5_file = Inr gap5_file \<and>
   process_file_v2 ''Row.tsx'' (world_with gap5_file) =
     (False, call_rewriter gap5_file (snd (read_text ''Row.tsx'' (world_with gap5_file))))"
proof -
  have r: "read_result (world_with gap5_file) ''Row.tsx'' = Inr gap5_file"
    "write_calls (world_with gap5_file) = []" "stdout (world_with gap5_file) = []"
    by (simp_all add: world_with_def)
  have e: "w\<lparr>stdout := stdout w\<rparr> = w" for w :: world by simp
  show ?thesis
    by (simp add: r e gap5_file_untracked gap5_file_v1 gap5_file_v2 gap5_file_icons
        gap5_file_gate process_file_def process_file_v2_def process_file_try_cases
        process_file_try_v2_cases world_fields error_text_def Let_def)
qed

section \<open>The comma that update-styles.py requires\<close>

lemma digits_run:
  "digits d \<Longrightarrow> v = [] \<or> \<not> is_digit (hd v) \<Longrightarrow> takeWhile is_digit (d @ v) = d"
  using takeWhile_run[of is_digit d v] by (simp add: digits_def)

lemma no_comma_no_match:
  assumes "digits d" "v = [] \<or> (hd v \<noteq> CHR '','' \<and> \<not> is_digit (hd v))"
    and "d @ v = d' @ '','' @ rest" "digits d'"
  shows False
proof -
  have "takeWhile is_digit (d @ v) = d" using assms(1,2) digits_run by blast
  moreover have "takeWhile is_digit (d' @ '','' @ rest) = d'"
    using digits_run[OF assms(4), of "'','' @ rest"] by simp
  ultimately have "d = d'" using assms(3) by simp
  then have "v = '','' @ rest" using assms(3) by simp
  then show False using assms(2) by auto
qed

lemma last_property_v1: "add_tablet_specific_styles last_property_file = Inr last_property_file"
  unfolding last_property_file_def by code_simp

lemma last_property_v2:
  "fst (update_styles_in_stylesheet last_property_file) = last_property_file_v2"
  unfolding last_property_file_def last_property_file_v2_def by code_simp

text \<open>
  Claim C10. Every match of the spacing and \<^verbatim>\<open>fontSize\<close> patterns of update-styles.py ends
  with the comma that follows the literal integer, so a declaration whose integer is not
  followed by a comma is not matched, and the file \<open>last_property_file\<close>, whose
  \<^verbatim>\<open>padding: 16\<close> ends its block, comes back unchanged. update-styles-v2.py, whose patterns
  end at a word boundary, rewrites the same file.
\<close>

theorem comma_required_by_v1_only:
  "(spacing_pattern p s = Some (gs, rest) \<or> font_size_pattern p s = Some (gs, rest) \<longrightarrow>
      (\<exists>m. s = m @ '','' @ rest)) \<and>
   (nm \<in> set spacing_props \<and> digits d \<and>
    (v = [] \<or> (hd v \<noteq> CHR '','' \<and> \<not> is_digit (hd v))) \<longrightarrow>
      spacing_pattern p (nm @ '': '' @ d @ v) = None \<and>
      font_size_pattern p (''fontSize: '' @ d @ v) = None) \<and>
   add_tablet_specific_styles last_property_file = Inr last_property_file \<and>
   fst (update_styles_in_stylesheet last_property_file) = last_property_file_v2"
proof -
  have 1: "spacing_pattern p s = Some (gs, rest) \<or> font_size_pattern p s = Some (gs, rest) \<longrightarrow>
      (\<exists>m. s = m @ '','' @ rest)"
  proof
    assume "spacing_pattern p s = Some (gs, rest) \<or> font_size_pattern p s = Some (gs, rest)"
    then show "\<exists>m. s = m @ '','' @ rest"
    proof
      assume "spacing_pattern p s = Some (gs, rest)"
      then obtain nm d where "s = nm @ '': '' @ d @ '','' @ rest"
        unfolding spacing_pattern_iff by blast
      then have "s = (nm @ '': '' @ d) @ '','' @ rest" by simp
      then show ?thesis by blast
    next
      assume "font_size_pattern p s = Some (gs, rest)"
      then obtain d where "s = ''fontSize: '' @ d @ '','' @ rest"
        unfolding font_size_pattern_iff by blast
      then have "s = (''fontSize: '' @ d) @ '','' @ rest" by simp
      then show ?thesis by blast
    qed
  qed
  have 2: "nm \<in> set spacing_props \<and> digits d \<and>
    (v = [] \<or> (hd v \<noteq> CHR '','' \<and> \<not> is_digit (hd v))) \<longrightarrow>
      spacing_pattern p (nm @ '': '' @ d @ v) = None \<and>
      font_size_pattern p (''fontSize: '' @ d @ v) = None"
  proof (intro impI conjI)
    assume a: "nm \<in> set spacing_props \<and> digits d \<and>
      (v = [] \<or> (hd v \<noteq> CHR '','' \<and> \<not> is_digit (hd v)))"
    show "spacing_pattern p (nm @ '': '' @ d @ v) = None"
    proof (rule ccontr)
      assume "spacing_pattern p (nm @ '': '' @ d @ v) \<noteq> None"
      then obtain gs' rest' where "spacing_pattern p (nm @ '': '' @ d @ v) = Some (gs', rest')"
        by auto
      then obtain nm' d' where h: "nm' \<in> set spacing_props" "digits d'"
        "nm @ '': '' @ d @ v = nm' @ '': '' @ d' @ '','' @ rest'"
        unfolding spacing_pattern_iff by blast
      have "nm @ CHR '':'' # ('' '' @ d @ v) = nm' @ CHR '':'' # ('' '' @ d' @ '','' @ rest')"
        using h(3) by simp
      then have "'' '' @ d @ v = '' '' @ d' @ '','' @ rest'"
        using split_first[of "CHR '':''" nm nm'] spacing_props_no_colon a h(1) by blast
      then have "d @ v = d' @ '','' @ rest'" by simp
      then show False using no_comma_no_match[of d v d' rest'] a h(2) by blast
    qed
    show "font_size_pattern p (''fontSize: '' @ d @ v) = None"
    proof (rule ccontr)
      assume "font_size_pattern p (''fontSize: '' @ d @ v) \<noteq> None"
      then obtain gs' rest' where "font_size_pattern p (''fontSize: '' @ d @ v) = Some (gs', rest')"
        by auto
      then obtain d' where h: "digits d'"
        "''fontSize: '' @ d @ v = ''fontSize: '' @ d' @ '','' @ rest'"
        unfolding font_size_pattern_iff by blast
      then have "d @ v = d' @ '','' @ rest'" by simp
      then show False using no_comma_no_match[of d v d' rest'] a h(1) by blast
    qed
  qed
  show ?thesis using 1 2 last_property_v1 last_property_v2 by blast
qed

lemma digits_16: "digits ''16''"
  unfolding digits_def by code_simp

theorem comma_required_by_v1_only_witness:
  "spacing_pattern None ''padding: 16, '' = Some ([''padding'', ''16''], '' '') \<and>
   ''padding'' \<in> set spacing_props \<and> digits ''16'' \<and>
   spacing_pattern None ''padding: 16}'' = None \<and>
   font_size_pattern None ''fontSize: 16}'' = None"
proof -
  have a: "spacing_pattern None ''padding: 16, '' = Some ([''padding'', ''16''], '' '')"
    by code_simp
  have b: "''padding'' \<in> set spacing_props" by (simp add: spacing_props_def)
  have c: "\<not> is_digit CHR ''}''" by (simp add: is_digit_def)
  show ?thesis
    using comma_required_by_v1_only[of None "''padding: 16, ''" "[''padding'', ''16'']" "'' ''"
            "''padding''" "''16''" "''}''"]
          a b c digits_16
    by simp
qed

end
